theory Spec2Isabelle
  imports Complex_Main
begin

section \<open>Numeric model\<close>

text \<open>
  The solver computes with C++ \<^verbatim>\<open>double\<close>. A double is modelled as a real number
  or one of the three special values of IEEE-754 arithmetic that decide the control flow
  of the code: the two infinities and NaN. Arithmetic on finite values is exact (rounding,
  overflow to infinity and the sign of zero are outside the model); the special values
  follow IEEE-754: every comparison with NaN is false, \<open>\<infinity> - \<infinity>\<close> and \<open>0 * \<infinity>\<close>
  are NaN.
\<close>

datatype dbl = NaN | NInf | Fin real | PInf

fun dadd :: "dbl \<Rightarrow> dbl \<Rightarrow> dbl" where
  "dadd NaN _ = NaN"
| "dadd _ NaN = NaN"
| "dadd (Fin a) (Fin b) = Fin (a + b)"
| "dadd PInf NInf = NaN"
| "dadd NInf PInf = NaN"
| "dadd PInf _ = PInf"
| "dadd _ PInf = PInf"
| "dadd NInf _ = NInf"
| "dadd _ NInf = NInf"

fun dneg :: "dbl \<Rightarrow> dbl" where
  "dneg NaN = NaN"
| "dneg NInf = PInf"
| "dneg (Fin a) = Fin (- a)"
| "dneg PInf = NInf"

definition dsub :: "dbl \<Rightarrow> dbl \<Rightarrow> dbl" where
  "dsub a b = dadd a (dneg b)"

fun dmul :: "dbl \<Rightarrow> dbl \<Rightarrow> dbl" where
  "dmul NaN _ = NaN"
| "dmul _ NaN = NaN"
| "dmul (Fin a) (Fin b) = Fin (a * b)"
| "dmul (Fin a) PInf = (if a = 0 then NaN else if 0 < a then PInf else NInf)"
| "dmul (Fin a) NInf = (if a = 0 then NaN else if 0 < a then NInf else PInf)"
| "dmul PInf (Fin b) = (if b = 0 then NaN else if 0 < b then PInf else NInf)"
| "dmul NInf (Fin b) = (if b = 0 then NaN else if 0 < b then NInf else PInf)"
| "dmul PInf PInf = PInf"
| "dmul NInf NInf = PInf"
| "dmul PInf NInf = NInf"
| "dmul NInf PInf = NInf"

text \<open>Division; a finite zero divisor is taken as \<open>+0\<close>.\<close>

fun ddiv :: "dbl \<Rightarrow> dbl \<Rightarrow> dbl" where
  "ddiv NaN _ = NaN"
| "ddiv _ NaN = NaN"
| "ddiv (Fin a) (Fin b) =
     (if b = 0 then (if a = 0 then NaN else if 0 < a then PInf else NInf)
      else Fin (a / b))"
| "ddiv (Fin a) PInf = Fin 0"
| "ddiv (Fin a) NInf = Fin 0"
| "ddiv PInf (Fin b) = (if 0 \<le> b then PInf else NInf)"
| "ddiv NInf (Fin b) = (if 0 \<le> b then NInf else PInf)"
| "ddiv PInf PInf = NaN"
| "ddiv PInf NInf = NaN"
| "ddiv NInf PInf = NaN"
| "ddiv NInf NInf = NaN"

text \<open>\<^verbatim>\<open>a < b\<close>, \<^verbatim>\<open>a <= b\<close> and \<^verbatim>\<open>a == b\<close> on doubles. The code's
  \<^verbatim>\<open>a > b\<close> is \<open>dlt b a\<close> and \<^verbatim>\<open>a >= b\<close> is \<open>dle b a\<close>.\<close>

fun dlt :: "dbl \<Rightarrow> dbl \<Rightarrow> bool" where
  "dlt NaN _ = False"
| "dlt _ NaN = False"
| "dlt (Fin a) (Fin b) = (a < b)"
| "dlt NInf NInf = False"
| "dlt NInf _ = True"
| "dlt PInf _ = False"
| "dlt (Fin a) PInf = True"
| "dlt (Fin a) NInf = False"

fun deq :: "dbl \<Rightarrow> dbl \<Rightarrow> bool" where
  "deq NaN _ = False"
| "deq _ NaN = False"
| "deq a b = (a = b)"

definition dle :: "dbl \<Rightarrow> dbl \<Rightarrow> bool" where
  "dle a b = (dlt a b \<or> deq a b)"

definition dgt :: "dbl \<Rightarrow> dbl \<Rightarrow> bool" where
  "dgt a b = dlt b a"

definition dge :: "dbl \<Rightarrow> dbl \<Rightarrow> bool" where
  "dge a b = dle b a"

fun dabs :: "dbl \<Rightarrow> dbl" where
  "dabs NaN = NaN"
| "dabs NInf = PInf"
| "dabs (Fin a) = Fin \<bar>a\<bar>"
| "dabs PInf = PInf"

fun disinf :: "dbl \<Rightarrow> bool" where
  "disinf NInf = True"
| "disinf PInf = True"
| "disinf _ = False"

fun disnan :: "dbl \<Rightarrow> bool" where
  "disnan NaN = True"
| "disnan _ = False"

text \<open>\<^verbatim>\<open>std::max(a, b)\<close> is \<^verbatim>\<open>(a < b) ? b : a\<close> and \<^verbatim>\<open>std::min(a, b)\<close> is
  \<^verbatim>\<open>(b < a) ? b : a\<close>.\<close>

definition dmax :: "dbl \<Rightarrow> dbl \<Rightarrow> dbl" where
  "dmax a b = (if dlt a b then b else a)"

definition dmin :: "dbl \<Rightarrow> dbl \<Rightarrow> dbl" where
  "dmin a b = (if dlt b a then b else a)"

text \<open>\<^verbatim>\<open>std::round\<close> rounds halfway cases away from zero.\<close>

definition cround :: "real \<Rightarrow> real" where
  "cround x = (if 0 \<le> x then of_int \<lfloor>x + 1/2\<rfloor> else of_int \<lceil>x - 1/2\<rceil>)"

fun dround :: "dbl \<Rightarrow> dbl" where
  "dround (Fin a) = Fin (cround a)"
| "dround a = a"

fun dfloor :: "dbl \<Rightarrow> dbl" where
  "dfloor (Fin a) = Fin (of_int \<lfloor>a\<rfloor>)"
| "dfloor a = a"

fun dceil :: "dbl \<Rightarrow> dbl" where
  "dceil (Fin a) = Fin (of_int \<lceil>a\<rceil>)"
| "dceil a = a"

section \<open>Problem model (core.h)\<close>

datatype VariableType = CONTINUOUS | INTEGER | BINARY

datatype ConstraintType = LESS_EQUAL | GREATER_EQUAL | EQUAL

datatype ObjectiveType = MAXIMIZE | MINIMIZE

record Variable =
  var_name :: string
  var_type :: VariableType
  lower_bound :: dbl
  upper_bound :: dbl
  coefficient :: dbl

text \<open>The constructor: unbounded on both sides, objective coefficient zero.\<close>

definition mkVariable :: "string \<Rightarrow> VariableType \<Rightarrow> Variable" where
  "mkVariable n t =
     \<lparr>var_name = n, var_type = t, lower_bound = NInf, upper_bound = PInf,
      coefficient = Fin 0\<rparr>"

definition setBounds :: "Variable \<Rightarrow> dbl \<Rightarrow> dbl \<Rightarrow> Variable" where
  "setBounds v lo up = v\<lparr>lower_bound := lo, upper_bound := up\<rparr>"

definition setCoefficient :: "Variable \<Rightarrow> dbl \<Rightarrow> Variable" where
  "setCoefficient v c = v\<lparr>coefficient := c\<rparr>"

text \<open>
  A constraint's \<^verbatim>\<open>std::unordered_map<int, double>\<close> is an association list with one
  entry for each key; the list order stands for the iteration order of the map.
\<close>

record Constraint =
  con_name :: string
  con_type :: ConstraintType
  rhs :: dbl
  coefficients :: "(int \<times> dbl) list"

definition mkConstraint :: "string \<Rightarrow> ConstraintType \<Rightarrow> dbl \<Rightarrow> Constraint" where
  "mkConstraint n t r = \<lparr>con_name = n, con_type = t, rhs = r, coefficients = []\<rparr>"

text \<open>\<^verbatim>\<open>coefficients_[var_index] = coeff\<close>: overwrite the entry of the key or add one.\<close>

fun map_assign :: "(int \<times> dbl) list \<Rightarrow> int \<Rightarrow> dbl \<Rightarrow> (int \<times> dbl) list" where
  "map_assign [] k v = [(k, v)]"
| "map_assign ((k', v') # m) k v =
     (if k' = k then (k, v) # m else (k', v') # map_assign m k v)"

definition addVariableC :: "Constraint \<Rightarrow> int \<Rightarrow> dbl \<Rightarrow> Constraint" where
  "addVariableC c var_index coeff =
     c\<lparr>coefficients := map_assign (coefficients c) var_index coeff\<rparr>"

text \<open>
  \<^verbatim>\<open>var_index < solution.size()\<close> compares an \<^verbatim>\<open>int\<close> with a \<^verbatim>\<open>size_t\<close>: the index
  is converted to unsigned, so a negative index is never below the size.
\<close>

definition in_range :: "int \<Rightarrow> 'a list \<Rightarrow> bool" where
  "in_range k xs = (0 \<le> k \<and> nat k < length xs)"

definition constraint_lhs :: "(int \<times> dbl) list \<Rightarrow> dbl list \<Rightarrow> dbl" where
  "constraint_lhs cs solution =
     foldl (\<lambda>lhs (var_index, coeff).
              if in_range var_index solution
              then dadd lhs (dmul coeff (solution ! nat var_index)) else lhs)
       (Fin 0) cs"

definition isSatisfied :: "Constraint \<Rightarrow> dbl list \<Rightarrow> bool" where
  "isSatisfied c solution =
     (let lhs = constraint_lhs (coefficients c) solution in
      case con_type c of
        LESS_EQUAL \<Rightarrow> dle lhs (dadd (rhs c) (Fin (1 / 10 ^ 9)))
      | GREATER_EQUAL \<Rightarrow> dge lhs (dsub (rhs c) (Fin (1 / 10 ^ 9)))
      | EQUAL \<Rightarrow> dlt (dabs (dsub lhs (rhs c))) (Fin (1 / 10 ^ 9)))"

record Problem =
  prob_name :: string
  objective_type :: ObjectiveType
  variables :: "Variable list"
  constraints :: "Constraint list"

definition mkProblem :: "string \<Rightarrow> ObjectiveType \<Rightarrow> Problem" where
  "mkProblem n t = \<lparr>prob_name = n, objective_type = t, variables = [], constraints = []\<rparr>"

definition addVariable :: "Problem \<Rightarrow> string \<Rightarrow> VariableType \<Rightarrow> Problem \<times> int" where
  "addVariable p n t =
     (p\<lparr>variables := variables p @ [mkVariable n t]\<rparr>, int (length (variables p)))"

definition getNumVariables :: "Problem \<Rightarrow> nat" where
  "getNumVariables p = length (variables p)"

definition addConstraint :: "Problem \<Rightarrow> string \<Rightarrow> ConstraintType \<Rightarrow> dbl \<Rightarrow> Problem \<times> int" where
  "addConstraint p n t r =
     (p\<lparr>constraints := constraints p @ [mkConstraint n t r]\<rparr>, int (length (constraints p)))"

text \<open>
  The failures the specification names for the setters. \<^verbatim>\<open>setObjectiveCoefficient\<close>
  returns \<^verbatim>\<open>void\<close> and has no \<^verbatim>\<open>throw\<close>; its model has the result type of a
  fallible setter so that signalling can be stated, and every path of the source is a
  normal return.
\<close>

datatype model_error = InvalidIndex | InvalidValue

definition setObjectiveCoefficient :: "Problem \<Rightarrow> int \<Rightarrow> dbl \<Rightarrow> model_error + Problem" where
  "setObjectiveCoefficient p var_index coeff =
     (if 0 \<le> var_index \<and> var_index < int (length (variables p))
      then Inr (p\<lparr>variables :=
                 (variables p)[nat var_index := setCoefficient (variables p ! nat var_index) coeff]\<rparr>)
      else Inr p)"

text \<open>
  \<^verbatim>\<open>p.getConstraint(c).addVariable(v, coeff)\<close>, the way the bindings and the C API set
  a constraint coefficient, for a constraint index in range (\<^verbatim>\<open>getConstraint\<close> indexes
  the vector unchecked, so an index out of range has no defined behaviour and is not
  modelled: the model returns the problem as it is). The variable index is not
  checked at all.
\<close>

definition addConstraintCoefficient :: "Problem \<Rightarrow> nat \<Rightarrow> int \<Rightarrow> dbl \<Rightarrow> model_error + Problem" where
  "addConstraintCoefficient p c_idx v_idx coeff =
     (if c_idx < length (constraints p)
      then Inr (p\<lparr>constraints :=
                 (constraints p)[c_idx := addVariableC (constraints p ! c_idx) v_idx coeff]\<rparr>)
      else Inr p)"

definition in_bounds :: "Variable \<Rightarrow> dbl \<Rightarrow> bool" where
  "in_bounds var x =
     (\<not> (dlt x (dsub (lower_bound var) (Fin (1 / 10 ^ 9)))
         \<or> dgt x (dadd (upper_bound var) (Fin (1 / 10 ^ 9)))))"

definition isValidSolution :: "Problem \<Rightarrow> dbl list \<Rightarrow> bool" where
  "isValidSolution p solution =
     (if length solution \<noteq> length (variables p) then False
      else if \<not> list_all (\<lambda>(var, x). in_bounds var x) (zip (variables p) solution) then False
      else list_all (\<lambda>c. isSatisfied c solution) (constraints p))"

definition calculateObjectiveValue :: "Problem \<Rightarrow> dbl list \<Rightarrow> dbl" where
  "calculateObjectiveValue p solution =
     foldl (\<lambda>v (var, x). dadd v (dmul (coefficient var) x)) (Fin 0)
       (zip (variables p) solution)"


section \<open>LP relaxation solver (simplex_solver.h)\<close>

record SimplexResult =
  is_optimal :: bool
  is_unbounded :: bool
  is_infeasible :: bool
  solution :: "dbl list"
  objective_value :: dbl
  iterations :: int

text \<open>The screen for \<^verbatim>\<open>lower > upper + 1e-9\<close>.\<close>

definition has_infeasible_bounds :: "Problem \<Rightarrow> bool" where
  "has_infeasible_bounds p =
     list_ex (\<lambda>var. dgt (lower_bound var) (dadd (upper_bound var) (Fin (1 / 10 ^ 9))))
       (variables p)"

text \<open>The body of the initialisation loop for one variable.\<close>

definition is_fixed :: "Variable \<Rightarrow> bool" where
  "is_fixed var = dlt (dabs (dsub (lower_bound var) (upper_bound var))) (Fin (1 / 10 ^ 9))"

definition initial_value :: "ObjectiveType \<Rightarrow> Variable \<Rightarrow> dbl" where
  "initial_value ot var =
     (if is_fixed var
      then lower_bound var
      else
        let coeff = coefficient var;
            x = (if ot = MAXIMIZE
                 then (if dgt coeff (Fin 0) then upper_bound var else lower_bound var)
                 else (if dgt coeff (Fin 0) then lower_bound var else upper_bound var))
        in if disinf x then (if dgt x (Fin 0) then Fin 100 else Fin 0) else x)"

definition initial_solution :: "Problem \<Rightarrow> dbl list" where
  "initial_solution p = map (initial_value (objective_type p)) (variables p)"

text \<open>The violation test of the repair loop, tolerance \<^verbatim>\<open>1e-6\<close>: \<open>None\<close> when the
  constraint is not violated, the violation otherwise.\<close>

definition check_violation :: "ConstraintType \<Rightarrow> dbl \<Rightarrow> dbl \<Rightarrow> dbl option" where
  "check_violation t lhs r =
     (case t of
        LESS_EQUAL \<Rightarrow>
          if dgt lhs (dadd r (Fin (1 / 10 ^ 6))) then Some (dsub lhs r) else None
      | GREATER_EQUAL \<Rightarrow>
          if dlt lhs (dsub r (Fin (1 / 10 ^ 6))) then Some (dsub r lhs) else None
      | EQUAL \<Rightarrow>
          if dgt (dabs (dsub lhs r)) (Fin (1 / 10 ^ 6)) then Some (dabs (dsub lhs r))
          else None)"

definition target_change :: "ConstraintType \<Rightarrow> dbl \<Rightarrow> dbl \<Rightarrow> dbl" where
  "target_change t lhs r =
     (case t of
        LESS_EQUAL \<Rightarrow> if dgt lhs r then dsub r lhs else Fin 0
      | GREATER_EQUAL \<Rightarrow> if dlt lhs r then dsub r lhs else Fin 0
      | EQUAL \<Rightarrow> dsub r lhs)"

definition can_adjust :: "Problem \<Rightarrow> dbl list \<Rightarrow> dbl \<Rightarrow> int \<Rightarrow> dbl \<Rightarrow> bool" where
  "can_adjust p sol tc var_idx coeff =
     (let var = variables p ! nat var_idx in
      if dgt (dmul tc coeff) (Fin 0)
      then dlt (sol ! nat var_idx) (dsub (upper_bound var) (Fin (1 / 10 ^ 9)))
      else dgt (sol ! nat var_idx) (dadd (lower_bound var) (Fin (1 / 10 ^ 9))))"

text \<open>The first loop of \<^verbatim>\<open>fixConstraintViolation\<close>: the adjustable variables, in
  iteration order, and the sum of the absolute values of their coefficients.\<close>

definition find_adjustable ::
  "Problem \<Rightarrow> dbl list \<Rightarrow> dbl \<Rightarrow> (int \<times> dbl) list \<Rightarrow> int list \<times> dbl" where
  "find_adjustable p sol tc coeffs =
     foldl (\<lambda>(adjustable_vars, total_weight) (var_idx, coeff).
              if in_range var_idx sol \<and> dgt (dabs coeff) (Fin (1 / 10 ^ 9))
                 \<and> can_adjust p sol tc var_idx coeff
              then (adjustable_vars @ [var_idx], dadd total_weight (dabs coeff))
              else (adjustable_vars, total_weight))
       ([], Fin 0) coeffs"

text \<open>
  The second loop, for one adjustable variable. \<^verbatim>\<open>coeffs.at(var_idx)\<close> throws for a
  missing key; every adjustable index is a key of the same map, so the lookup finds it
  (lemma \<open>find_adjustable_keys\<close>); the model leaves the solution as it is otherwise.
\<close>

definition adjust_var ::
  "Problem \<Rightarrow> (int \<times> dbl) list \<Rightarrow> dbl \<Rightarrow> dbl \<Rightarrow> dbl list \<Rightarrow> int \<Rightarrow> dbl list" where
  "adjust_var p coeffs tc total_weight sol var_idx =
     (case map_of coeffs var_idx of
        None \<Rightarrow> sol
      | Some coeff \<Rightarrow>
          let weight = ddiv (dabs coeff) total_weight;
              var_change = ddiv (dmul tc weight) coeff;
              var = variables p ! nat var_idx;
              new_value = dadd (sol ! nat var_idx) var_change;
              new_value' = dmax (lower_bound var) (dmin (upper_bound var) new_value)
          in sol[nat var_idx := new_value'])"

definition fixConstraintViolation ::
  "Problem \<Rightarrow> dbl list \<Rightarrow> Constraint \<Rightarrow> dbl \<Rightarrow> dbl \<Rightarrow> ConstraintType \<Rightarrow> dbl list" where
  "fixConstraintViolation p sol c lhs r t =
     (let coeffs = coefficients c;
          tc = target_change t lhs r
      in if dlt (dabs tc) (Fin (1 / 10 ^ 9)) then sol
         else
           let (adjustable_vars, total_weight) = find_adjustable p sol tc coeffs
           in if adjustable_vars = [] \<or> dlt total_weight (Fin (1 / 10 ^ 9)) then sol
              else foldl (adjust_var p coeffs tc total_weight) sol adjustable_vars)"

text \<open>One pass of the repair loop over the constraints, in insertion order. The state is
  \<^verbatim>\<open>all_satisfied\<close>, \<^verbatim>\<open>max_violation\<close> and the solution.\<close>

definition repair_constraint ::
  "Problem \<Rightarrow> bool \<times> dbl \<times> dbl list \<Rightarrow> Constraint \<Rightarrow> bool \<times> dbl \<times> dbl list" where
  "repair_constraint p s c =
     (case s of (all_satisfied, max_violation, sol) \<Rightarrow>
        let lhs = constraint_lhs (coefficients c) sol;
            r = rhs c
        in (case check_violation (con_type c) lhs r of
              None \<Rightarrow> (all_satisfied, max_violation, sol)
            | Some violation \<Rightarrow>
                (False, dmax max_violation violation,
                 fixConstraintViolation p sol c lhs r (con_type c))))"

definition repair_pass :: "Problem \<Rightarrow> dbl list \<Rightarrow> bool \<times> dbl \<times> dbl list" where
  "repair_pass p sol = foldl (repair_constraint p) (True, Fin 0, sol) (constraints p)"

text \<open>The check after the loop.\<close>

definition total_violation :: "Problem \<Rightarrow> dbl list \<Rightarrow> dbl" where
  "total_violation p sol =
     foldl (\<lambda>tv c.
              let lhs = constraint_lhs (coefficients c) sol;
                  r = rhs c
              in case con_type c of
                   LESS_EQUAL \<Rightarrow>
                     if dgt lhs (dadd r (Fin (1 / 10 ^ 6))) then dadd tv (dsub lhs r) else tv
                 | GREATER_EQUAL \<Rightarrow>
                     if dlt lhs (dsub r (Fin (1 / 10 ^ 6))) then dadd tv (dsub r lhs) else tv
                 | EQUAL \<Rightarrow> dadd tv (dabs (dsub lhs r)))
       (Fin 0) (constraints p)"

text \<open>\<^verbatim>\<open>satisfyConstraints\<close>: the loop from iteration \<open>iter\<close> on, then the final check.
  The result is the returned flag and the solution vector as the call leaves it.\<close>

function satisfy_loop :: "Problem \<Rightarrow> nat \<Rightarrow> dbl list \<Rightarrow> bool \<times> dbl list" where
  "satisfy_loop p iter sol =
     (if iter < 20 then
        (case repair_pass p sol of (all_satisfied, max_violation, sol') \<Rightarrow>
           if all_satisfied then (True, sol')
           else if 5 < iter \<and> dgt max_violation (Fin 1) then (False, sol')
           else satisfy_loop p (iter + 1) sol')
      else (dlt (total_violation p sol) (Fin (1 / 10)), sol))"
  by pat_completeness auto
termination
  by (relation "measure (\<lambda>(p, iter, sol). 20 - iter)") auto

declare satisfy_loop.simps [simp del]

definition satisfyConstraints :: "Problem \<Rightarrow> dbl list \<Rightarrow> bool \<times> dbl list" where
  "satisfyConstraints p sol = satisfy_loop p 0 sol"

text \<open>
  \<^verbatim>\<open>solveLPWithBounds\<close>. The source leaves \<^verbatim>\<open>objective_value\<close> uninitialised on the
  two infeasible returns; the model holds NaN there, and \<^verbatim>\<open>solve\<close> does not read it on
  those paths.
\<close>

definition solveLPWithBounds :: "Problem \<Rightarrow> SimplexResult" where
  "solveLPWithBounds p =
     (let result = \<lparr>is_optimal = True, is_unbounded = False, is_infeasible = False,
                    solution = replicate (getNumVariables p) (Fin 0),
                    objective_value = NaN, iterations = 1\<rparr>
      in if has_infeasible_bounds p then result\<lparr>is_infeasible := True\<rparr>
         else
           case satisfyConstraints p (initial_solution p) of (ok, sol) \<Rightarrow>
             if \<not> ok then result\<lparr>solution := sol, is_infeasible := True\<rparr>
             else result\<lparr>solution := sol, objective_value := calculateObjectiveValue p sol\<rparr>)"

definition solveLPRelaxation :: "Problem \<Rightarrow> SimplexResult" where
  "solveLPRelaxation p = solveLPWithBounds p"


section \<open>Solution object\<close>

datatype Status = OPTIMAL | INFEASIBLE | UNBOUNDED | TIME_LIMIT | ITERATION_LIMIT | UNKNOWN

text \<open>
  Modelled from the spec: \<^verbatim>\<open>solution.h\<close> (the class \<^verbatim>\<open>Solution\<close>, and
  \<^verbatim>\<open>SolverInterface\<close> with its \<^verbatim>\<open>iteration_limit_\<close>) is not among the sources. A
  Solution holds a status, a value vector aligned to the variable indices, an objective
  value and the number of nodes processed; the solve time is wall-clock time and is not
  modelled. The constructor \<^verbatim>\<open>Solution(n)\<close> is taken to give \<open>n\<close> zero values and
  status \<open>UNKNOWN\<close>; \<^verbatim>\<open>setValue\<close> writes one entry.
\<close>

record Solution =
  status :: Status
  sol_values :: "dbl list"
  sol_objective_value :: dbl
  sol_iterations :: int

definition mkSolution :: "nat \<Rightarrow> Solution" where
  "mkSolution n =
     \<lparr>status = UNKNOWN, sol_values = replicate n (Fin 0), sol_objective_value = Fin 0,
      sol_iterations = 0\<rparr>"

definition setValue :: "Solution \<Rightarrow> nat \<Rightarrow> dbl \<Rightarrow> Solution" where
  "setValue s i v = s\<lparr>sol_values := (sol_values s)[i := v]\<rparr>"

section \<open>Branch and bound (branch_bound_solver.h)\<close>

record BBNode =
  problem :: Problem
  bound :: dbl
  depth :: int

definition shouldPrune :: "dbl \<Rightarrow> dbl \<Rightarrow> ObjectiveType \<Rightarrow> bool" where
  "shouldPrune node_bound best obj_type =
     (if obj_type = MINIMIZE then dge node_bound (dsub best (Fin (1 / 10 ^ 6)))
      else dle node_bound (dadd best (Fin (1 / 10 ^ 6))))"

definition isBetterSolution :: "dbl \<Rightarrow> dbl \<Rightarrow> ObjectiveType \<Rightarrow> bool" where
  "isBetterSolution new_obj current_best obj_type =
     (if obj_type = MINIMIZE then dlt new_obj (dsub current_best (Fin (1 / 10 ^ 6)))
      else dgt new_obj (dadd current_best (Fin (1 / 10 ^ 6))))"

text \<open>\<^verbatim>\<open>std::abs(val - std::round(val))\<close>.\<close>

definition fractional_part :: "dbl \<Rightarrow> dbl" where
  "fractional_part val = dabs (dsub val (dround val))"

definition is_integer_var :: "Variable \<Rightarrow> bool" where
  "is_integer_var var = (var_type var = INTEGER \<or> var_type var = BINARY)"

definition isIntegerFeasible :: "dbl list \<Rightarrow> Problem \<Rightarrow> bool" where
  "isIntegerFeasible sol p =
     list_all (\<lambda>i. if is_integer_var (variables p ! i)
                   then \<not> dgt (fractional_part (sol ! i)) (Fin (1 / 10 ^ 6)) else True)
       [0 ..< getNumVariables p]"

text \<open>The loop of \<^verbatim>\<open>findBranchingVariable\<close>; the state is \<^verbatim>\<open>branch_var\<close> and
  \<^verbatim>\<open>max_fractional\<close>.\<close>

definition branching_step :: "dbl list \<Rightarrow> Problem \<Rightarrow> int \<times> dbl \<Rightarrow> nat \<Rightarrow> int \<times> dbl" where
  "branching_step sol p s i =
     (case s of (branch_var, max_fractional) \<Rightarrow>
        if is_integer_var (variables p ! i) then
          let fp = fractional_part (sol ! i) in
          if dgt fp (Fin (1 / 10 ^ 6)) \<and> dgt fp max_fractional then (int i, fp)
          else (branch_var, max_fractional)
        else (branch_var, max_fractional))"

definition findBranchingVariable :: "dbl list \<Rightarrow> Problem \<Rightarrow> int" where
  "findBranchingVariable sol p =
     fst (foldl (branching_step sol p) (- 1, Fin 0) [0 ..< getNumVariables p])"

text \<open>
  \<^verbatim>\<open>addBound\<close> on a Problem object; the result is the object after the call. The
  callers pass an index in range (\<^verbatim>\<open>getVariable\<close> indexes the vector unchecked; the
  model leaves the problem as it is for any other index).
\<close>

definition addBound :: "Problem \<Rightarrow> int \<Rightarrow> dbl \<Rightarrow> dbl \<Rightarrow> Problem" where
  "addBound p var_index lower upper =
     (if in_range var_index (variables p) then
        let var = variables p ! nat var_index;
            current_lower = lower_bound var;
            current_upper = upper_bound var;
            new_lower = dmax current_lower lower;
            new_upper = dmin current_upper upper
        in p\<lparr>variables := (variables p)[nat var_index := setBounds var new_lower new_upper]\<rparr>
      else p)"

text \<open>The two children of a node: the left (down) child and the right (up) child.\<close>

definition left_child :: "BBNode \<Rightarrow> int \<Rightarrow> dbl \<Rightarrow> dbl \<Rightarrow> BBNode" where
  "left_child current_node branch_var branch_value lp_obj =
     current_node\<lparr>depth := depth current_node + 1,
                   problem := addBound (problem current_node) branch_var NInf (dfloor branch_value),
                   bound := lp_obj\<rparr>"

definition right_child :: "BBNode \<Rightarrow> int \<Rightarrow> dbl \<Rightarrow> dbl \<Rightarrow> BBNode" where
  "right_child current_node branch_var branch_value lp_obj =
     current_node\<lparr>depth := depth current_node + 1,
                   problem := addBound (problem current_node) branch_var (dceil branch_value) PInf,
                   bound := lp_obj\<rparr>"

text \<open>
  The objects \<^verbatim>\<open>solve\<close> works on: the caller's Problem, which it reaches through the
  reference \<^verbatim>\<open>const Problem& problem\<close>, and its locals. \<^verbatim>\<open>node_stack\<close> is a list
  whose head is \<^verbatim>\<open>node_stack.back()\<close>. A \<^verbatim>\<open>BBNode\<close> holds its Problem by
  value, so copying a node copies the Problem.
\<close>

record BBState =
  caller_problem :: Problem
  node_stack :: "BBNode list"
  nodes_processed :: int
  nodes_pruned :: int
  best_objective :: dbl
  best_solution :: "dbl list"

definition initial_state :: "Problem \<Rightarrow> BBState" where
  "initial_state p =
     \<lparr>caller_problem = p,
      node_stack =
        [\<lparr>problem = p,
          bound = (if objective_type p = MINIMIZE then NInf else PInf),
          depth = 0\<rparr>],
      nodes_processed = 0,
      nodes_pruned = 0,
      best_objective = (if objective_type p = MINIMIZE then PInf else NInf),
      best_solution = replicate (getNumVariables p) (Fin 0)\<rparr>"

text \<open>One iteration of the \<^verbatim>\<open>while\<close> loop: either the loop goes on with a new state, or
  \<^verbatim>\<open>solve\<close> returns from inside the loop with status \<open>UNBOUNDED\<close>.\<close>

datatype step_result = Continue BBState | ReturnUnbounded BBState

definition process_node :: "BBState \<Rightarrow> BBNode \<Rightarrow> step_result" where
  "process_node st current_node =
     (let p = caller_problem st;
          lp_result = solveLPRelaxation (problem current_node)
      in if is_infeasible lp_result
         then Continue (st\<lparr>nodes_pruned := nodes_pruned st + 1\<rparr>)
         else if is_unbounded lp_result \<and> objective_type p = MINIMIZE
         then ReturnUnbounded st
         else if shouldPrune (objective_value lp_result) (best_objective st) (objective_type p)
         then Continue (st\<lparr>nodes_pruned := nodes_pruned st + 1\<rparr>)
         else if isIntegerFeasible (solution lp_result) p
         then (if isBetterSolution (objective_value lp_result) (best_objective st)
                    (objective_type p)
               then Continue (st\<lparr>best_objective := objective_value lp_result,
                                 best_solution := solution lp_result\<rparr>)
               else Continue st)
         else
           let branch_var = findBranchingVariable (solution lp_result) p
           in if branch_var = - 1 then Continue st
              else
                let branch_value = solution lp_result ! nat branch_var;
                    lc = left_child current_node branch_var branch_value
                           (objective_value lp_result);
                    rc = right_child current_node branch_var branch_value
                           (objective_value lp_result)
                in Continue (st\<lparr>node_stack := lc # rc # node_stack st\<rparr>))"

definition bb_step :: "BBState \<Rightarrow> step_result" where
  "bb_step st =
     (case node_stack st of
        [] \<Rightarrow> Continue st
      | current_node # rest \<Rightarrow>
          process_node (st\<lparr>node_stack := rest, nodes_processed := nodes_processed st + 1\<rparr>)
            current_node)"

function bb_loop :: "int \<Rightarrow> BBState \<Rightarrow> step_result" where
  "bb_loop iteration_limit st =
     (if node_stack st \<noteq> [] \<and> nodes_processed st < iteration_limit then
        (case bb_step st of
           Continue st' \<Rightarrow> bb_loop iteration_limit st'
         | ReturnUnbounded st' \<Rightarrow> ReturnUnbounded st')
      else Continue st)"
  by pat_completeness auto
termination
  by (relation "measure (\<lambda>(il, st). nat (il - nodes_processed st))")
     (auto simp: bb_step_def process_node_def Let_def split: list.splits if_splits)

declare bb_loop.simps [simp del]

text \<open>The part of \<^verbatim>\<open>solve\<close> after the loop.\<close>

definition final_status :: "int \<Rightarrow> BBState \<Rightarrow> Status" where
  "final_status iteration_limit st =
     (if deq (best_objective st) PInf \<or> deq (best_objective st) NInf then INFEASIBLE
      else if iteration_limit \<le> nodes_processed st then ITERATION_LIMIT
      else OPTIMAL)"

definition final_solution :: "int \<Rightarrow> BBState \<Rightarrow> Solution" where
  "final_solution iteration_limit st =
     (let n = getNumVariables (caller_problem st);
          s = foldl (\<lambda>s i. setValue s i (best_solution st ! i)) (mkSolution n) [0 ..< n]
      in s\<lparr>sol_objective_value := best_objective st,
           sol_iterations := nodes_processed st,
           status := final_status iteration_limit st\<rparr>)"

definition solve :: "int \<Rightarrow> Problem \<Rightarrow> Solution" where
  "solve iteration_limit p =
     (case bb_loop iteration_limit (initial_state p) of
        ReturnUnbounded st \<Rightarrow> (mkSolution (getNumVariables p))\<lparr>status := UNBOUNDED\<rparr>
      | Continue st \<Rightarrow> final_solution iteration_limit st)"


section \<open>Predicates of the statements\<close>

text \<open>A constraint passes the violation test of the repair loop.\<close>

definition within_tolerance :: "Constraint \<Rightarrow> dbl list \<Rightarrow> bool" where
  "within_tolerance c sol =
     (check_violation (con_type c) (constraint_lhs (coefficients c) sol) (rhs c) = None)"

definition all_within_tolerance :: "Problem \<Rightarrow> dbl list \<Rightarrow> bool" where
  "all_within_tolerance p sol = list_all (\<lambda>c. within_tolerance c sol) (constraints p)"

text \<open>What \<^verbatim>\<open>satisfyConstraints\<close> accepts: no constraint violated by more than
  \<^verbatim>\<open>1e-6\<close>, or a total violation below \<^verbatim>\<open>0.1\<close>.\<close>

definition lp_accepted :: "Problem \<Rightarrow> dbl list \<Rightarrow> bool" where
  "lp_accepted p sol =
     (all_within_tolerance p sol \<or> dlt (total_violation p sol) (Fin (1 / 10)))"

text \<open>The solution after \<open>k\<close> passes of the repair loop, and the test that pass number
  \<open>iter\<close> ends the loop early (all constraints satisfied, or the abort after the sixth
  pass).\<close>

definition pass_solution :: "Problem \<Rightarrow> dbl list \<Rightarrow> dbl list" where
  "pass_solution p sol = snd (snd (repair_pass p sol))"

definition after_passes :: "Problem \<Rightarrow> nat \<Rightarrow> dbl list \<Rightarrow> dbl list" where
  "after_passes p k sol = (pass_solution p ^^ k) sol"

definition pass_exits :: "Problem \<Rightarrow> nat \<Rightarrow> dbl list \<Rightarrow> bool" where
  "pass_exits p iter sol =
     (case repair_pass p sol of (all_satisfied, max_violation, sol') \<Rightarrow>
        all_satisfied \<or> (5 < iter \<and> dgt max_violation (Fin 1)))"

text \<open>A variable that \<^verbatim>\<open>findBranchingVariable\<close> may choose: an Integer or Binary
  variable whose fractional part exceeds \<^verbatim>\<open>1e-6\<close>.\<close>

definition is_candidate :: "dbl list \<Rightarrow> Problem \<Rightarrow> nat \<Rightarrow> bool" where
  "is_candidate sol p i =
     (is_integer_var (variables p ! i) \<and> dgt (fractional_part (sol ! i)) (Fin (1 / 10 ^ 6)))"

text \<open>A node's Problem differs from the caller's Problem in variable bounds only.\<close>

definition same_model :: "Problem \<Rightarrow> Problem \<Rightarrow> bool" where
  "same_model p q =
     (objective_type q = objective_type p \<and> constraints q = constraints p
      \<and> map var_type (variables q) = map var_type (variables p)
      \<and> map coefficient (variables q) = map coefficient (variables p))"

text \<open>The replacement of an infinite bound chosen for the initial assignment.\<close>

definition finite_sentinel :: "dbl \<Rightarrow> dbl" where
  "finite_sentinel x = (case x of PInf \<Rightarrow> Fin 100 | NInf \<Rightarrow> Fin 0 | _ \<Rightarrow> x)"

text \<open>The initial assignment as the specification words it: the favourable bound is
  chosen by the test \<open>obj_coeff \<ge> 0\<close>.\<close>

definition spec_initial_value :: "ObjectiveType \<Rightarrow> Variable \<Rightarrow> dbl" where
  "spec_initial_value ot var =
     (if is_fixed var
      then lower_bound var
      else
        let x = (if ot = MINIMIZE
                 then (if dge (coefficient var) (Fin 0) then lower_bound var
                       else upper_bound var)
                 else (if dge (coefficient var) (Fin 0) then upper_bound var
                       else lower_bound var))
        in finite_sentinel x)"

text \<open>The invariant of the loop of \<^verbatim>\<open>findBranchingVariable\<close> after the indices below
  \<open>k\<close>.\<close>

definition branching_inv :: "dbl list \<Rightarrow> Problem \<Rightarrow> nat \<Rightarrow> int \<times> dbl \<Rightarrow> bool" where
  "branching_inv sol p k s =
     (case s of (bv, mx) \<Rightarrow>
        (bv = - 1 \<and> mx = Fin 0 \<and> (\<forall>j<k. \<not> is_candidate sol p j))
        \<or> (0 \<le> bv \<and> nat bv < k \<and> is_candidate sol p (nat bv)
            \<and> mx = fractional_part (sol ! nat bv)
            \<and> (\<forall>j<k. is_candidate sol p j \<longrightarrow> dle (fractional_part (sol ! j)) mx)
            \<and> (\<forall>j<nat bv. is_candidate sol p j \<longrightarrow> dlt (fractional_part (sol ! j)) mx)))"

text \<open>The states the loop of \<^verbatim>\<open>solve\<close> can be in on the problem \<open>p\<close>: the initial
  state, and every state that a step reaches from such a state with a node on the
  stack.\<close>

inductive search_state :: "Problem \<Rightarrow> BBState \<Rightarrow> bool" for p where
  init: "search_state p (initial_state p)"
| step: "search_state p st \<Longrightarrow> node_stack st \<noteq> [] \<Longrightarrow> bb_step st = Continue st'
         \<Longrightarrow> search_state p st'"

text \<open>The incumbent is the initial one (an infinite objective), or it passes the
  integrality test, is accepted by the LP relaxation solver on the constraints of \<open>p\<close>,
  and its objective is the objective of its values.\<close>

definition incumbent_ok :: "Problem \<Rightarrow> dbl \<Rightarrow> dbl list \<Rightarrow> bool" where
  "incumbent_ok p obj sol =
     (deq obj PInf \<or> deq obj NInf
      \<or> (isIntegerFeasible sol p \<and> lp_accepted p sol \<and> obj = calculateObjectiveValue p sol))"

text \<open>The invariant of the search on the problem \<open>p\<close>.\<close>

definition search_inv :: "Problem \<Rightarrow> BBState \<Rightarrow> bool" where
  "search_inv p st =
     (caller_problem st = p
      \<and> list_all (\<lambda>n. same_model p (problem n)) (node_stack st)
      \<and> length (best_solution st) = getNumVariables p
      \<and> \<not> disnan (best_objective st)
      \<and> incumbent_ok p (best_objective st) (best_solution st))"






section \<open>Example problems\<close>

definition example_var :: "VariableType \<Rightarrow> dbl \<Rightarrow> dbl \<Rightarrow> dbl \<Rightarrow> Variable" where
  "example_var t lo up c =
     \<lparr>var_name = [], var_type = t, lower_bound = lo, upper_bound = up, coefficient = c\<rparr>"


text \<open>Maximise \<open>3x + 8y + 4z\<close> subject to \<open>x + y + z \<le> 5/2\<close>, all three in \<open>[0, 1]\<close>,
  \<open>x\<close> integer.\<close>

definition split_repair_problem :: Problem where
  "split_repair_problem =
     \<lparr>prob_name = [], objective_type = MAXIMIZE,
      variables =
        [example_var INTEGER (Fin 0) (Fin 1) (Fin 3),
         example_var CONTINUOUS (Fin 0) (Fin 1) (Fin 8),
         example_var CONTINUOUS (Fin 0) (Fin 1) (Fin 4)],
      constraints =
        [\<lparr>con_name = [], con_type = LESS_EQUAL, rhs = Fin (5 / 2),
          coefficients = [(0, Fin 1), (1, Fin 1), (2, Fin 1)]\<rparr>]\<rparr>"

text \<open>The up child of the root of \<open>split_repair_problem\<close>: the branching variable is
  \<open>x\<close>, with LP value \<open>5/6\<close>, and the LP objective of the root is \<open>25/2\<close>.\<close>

definition split_repair_up_node :: BBNode where
  "split_repair_up_node =
     right_child \<lparr>problem = split_repair_problem, bound = PInf, depth = 0\<rparr> 0 (Fin (5 / 6))
       (Fin (25 / 2))"

text \<open>Maximise the integer \<open>x\<close> for \<open>0 \<le> x \<le> 1 - 2^-21\<close>.\<close>

definition near_integer_problem :: Problem where
  "near_integer_problem =
     \<lparr>prob_name = [], objective_type = MAXIMIZE,
      variables = [example_var INTEGER (Fin 0) (Fin (2097151 / 2097152)) (Fin 1)],
      constraints = []\<rparr>"

text \<open>Minimise \<open>x\<close> for the fixed \<open>x = 0\<close> subject to \<open>x = 1/10\<close>.\<close>

definition fixed_violation_problem :: Problem where
  "fixed_violation_problem =
     \<lparr>prob_name = [], objective_type = MINIMIZE,
      variables = [example_var CONTINUOUS (Fin 0) (Fin 0) (Fin 1)],
      constraints =
        [\<lparr>con_name = [], con_type = EQUAL, rhs = Fin (1 / 10),
          coefficients = [(0, Fin 1)]\<rparr>]\<rparr>"

text \<open>A variable with objective coefficient zero and bounds \<open>[0, 1]\<close>.\<close>

definition zero_coefficient_var :: Variable where
  "zero_coefficient_var = example_var CONTINUOUS (Fin 0) (Fin 1) (Fin 0)"

section \<open>The unbounded flag\<close>

lemma solveLP_is_unbounded: "is_unbounded (solveLPWithBounds p) = False"
  by (simp add: solveLPWithBounds_def Let_def split: prod.splits)

lemma process_node_Continue: "\<exists>st'. process_node st n = Continue st'"
  by (simp add: process_node_def Let_def solveLPRelaxation_def solveLP_is_unbounded)

lemma bb_step_Continue: "\<exists>st'. bb_step st = Continue st'"
  by (simp add: bb_step_def process_node_Continue split: list.splits)

lemma bb_loop_Continue: "\<exists>st'. bb_loop il st = Continue st'"
proof (induction il st rule: bb_loop.induct)
  case (1 il st)
  show ?case
  proof (cases "node_stack st \<noteq> [] \<and> nodes_processed st < il")
    case True
    obtain st1 where s: "bb_step st = Continue st1"
      using bb_step_Continue by blast
    from "1.IH"[OF True s] obtain st2 where "bb_loop il st1 = Continue st2" by blast
    with True s show ?thesis by (subst bb_loop.simps) simp
  next
    case False
    then show ?thesis by (subst bb_loop.simps) auto
  qed
qed

lemma status_final: "status (final_solution il st) = final_status il st"
  by (simp add: final_solution_def Let_def)

text \<open>
  C10. The LP relaxation solver never sets \<^verbatim>\<open>is_unbounded\<close>: the flag of every result
  is false, and so \<^verbatim>\<open>solve\<close> never returns a Solution with status \<open>UNBOUNDED\<close>,
  whatever the problem and the iteration limit.
\<close>

theorem solve_never_unbounded:
  "is_unbounded (solveLPRelaxation p) = False \<and> status (solve il p) \<noteq> UNBOUNDED"
proof -
  obtain st where "bb_loop il (initial_state p) = Continue st"
    using bb_loop_Continue by blast
  then have "status (solve il p) = final_status il st"
    by (simp add: solve_def status_final)
  then show ?thesis
    by (simp add: solveLPRelaxation_def solveLP_is_unbounded final_status_def)
qed


section \<open>The setters of the problem model\<close>

lemma map_of_map_assign: "map_of (map_assign m k v) k = Some v"
  by (induction m k v rule: map_assign.induct) auto

text \<open>
  C7, as the code has it. No setter of the problem model signals an error.
  \<^verbatim>\<open>setObjectiveCoefficient\<close> returns normally for every index and every coefficient:
  with an index out of range it leaves the Problem unchanged; with an index in range it
  stores the coefficient, whatever its value (NaN included), and changes no other
  variable. Setting a constraint coefficient stores the value under any variable index
  (the index is not checked against the variables) and whatever the value.
\<close>

theorem setters_never_signal:
  "(\<exists>p'. setObjectiveCoefficient p i c = Inr p')
   \<and> (\<not> (0 \<le> i \<and> i < int (length (variables p))) \<longrightarrow> setObjectiveCoefficient p i c = Inr p)
   \<and> (0 \<le> i \<and> i < int (length (variables p)) \<longrightarrow>
        (\<exists>p'. setObjectiveCoefficient p i c = Inr p'
              \<and> length (variables p') = length (variables p)
              \<and> coefficient (variables p' ! nat i) = c
              \<and> (\<forall>j < length (variables p). j \<noteq> nat i \<longrightarrow> variables p' ! j = variables p ! j)))
   \<and> (k < length (constraints p) \<longrightarrow>
        (\<exists>p'. addConstraintCoefficient p k v c = Inr p'
              \<and> map_of (coefficients (constraints p' ! k)) v = Some c))"
  by (auto simp: setObjectiveCoefficient_def addConstraintCoefficient_def setCoefficient_def
        addVariableC_def map_of_map_assign)

theorem setters_never_signal_witness:
  "setObjectiveCoefficient near_integer_problem 7 (Fin 2) = Inr near_integer_problem
   \<and> (\<exists>p'. setObjectiveCoefficient near_integer_problem 0 NaN = Inr p'
            \<and> coefficient (variables p' ! 0) = NaN)
   \<and> (\<exists>p'. addConstraintCoefficient fixed_violation_problem 0 9 NaN = Inr p'
            \<and> map_of (coefficients (constraints p' ! 0)) 9 = Some NaN)"
proof -
  have l1: "length (variables near_integer_problem) = 1"
    by (simp add: near_integer_problem_def)
  have l2: "length (constraints fixed_violation_problem) = 1"
    by (simp add: fixed_violation_problem_def)
  show ?thesis
    using setters_never_signal [where p = near_integer_problem and i = 7 and c = "Fin 2"]
      setters_never_signal [where p = near_integer_problem and i = 0 and c = NaN]
      setters_never_signal [where p = fixed_violation_problem and k = 0 and v = 9 and c = NaN]
    by (simp add: l1 l2) blast
qed

text \<open>
  C7 as stated fails: on a problem with one variable, index 7 raises no InvalidIndex, and
  a NaN coefficient at index 0 raises no InvalidValue.
\<close>

theorem setters_counterexample:
  "setObjectiveCoefficient near_integer_problem 7 (Fin 2) \<noteq> Inl InvalidIndex
   \<and> setObjectiveCoefficient near_integer_problem 0 NaN \<noteq> Inl InvalidValue"
  by (simp add: setObjectiveCoefficient_def)

section \<open>The initial assignment of the LP relaxation solver\<close>

lemma is_fixed_iff:
  "is_fixed var \<longleftrightarrow> (\<exists>l u. lower_bound var = Fin l \<and> upper_bound var = Fin u \<and> \<bar>l - u\<bar> < 1 / 10 ^ 9)"
  by (cases "lower_bound var"; cases "upper_bound var") (auto simp: is_fixed_def dsub_def)

text \<open>
  C4, as the code has it. A variable whose bounds differ by less than \<^verbatim>\<open>1e-9\<close> gets
  its lower bound. Any other variable gets the bound chosen by the strict test
  \<^verbatim>\<open>coeff > 0\<close>: for Minimize the lower bound if the objective coefficient is positive
  and the upper bound otherwise; for Maximize the upper bound if the coefficient is
  positive and the lower bound otherwise; a chosen \<open>+\<infinity>\<close> is replaced by 100 and a chosen
  \<open>-\<infinity>\<close> by 0.
\<close>

theorem initial_value_cases:
  "(is_fixed var \<longrightarrow> initial_value ot var = lower_bound var)
   \<and> (\<not> is_fixed var \<and> ot = MINIMIZE \<and> dgt (coefficient var) (Fin 0) \<longrightarrow>
        initial_value ot var = finite_sentinel (lower_bound var))
   \<and> (\<not> is_fixed var \<and> ot = MINIMIZE \<and> \<not> dgt (coefficient var) (Fin 0) \<longrightarrow>
        initial_value ot var = finite_sentinel (upper_bound var))
   \<and> (\<not> is_fixed var \<and> ot = MAXIMIZE \<and> dgt (coefficient var) (Fin 0) \<longrightarrow>
        initial_value ot var = finite_sentinel (upper_bound var))
   \<and> (\<not> is_fixed var \<and> ot = MAXIMIZE \<and> \<not> dgt (coefficient var) (Fin 0) \<longrightarrow>
        initial_value ot var = finite_sentinel (lower_bound var))"
proof -
  have s: "(if disinf x then (if dgt x (Fin 0) then Fin 100 else Fin 0) else x) = finite_sentinel x" for x
    by (cases x) (simp_all add: finite_sentinel_def dgt_def)
  show ?thesis
    by (simp add: initial_value_def Let_def s)
qed

theorem initial_value_cases_witness:
  "initial_value MINIMIZE zero_coefficient_var = Fin 1
   \<and> initial_value MAXIMIZE (example_var CONTINUOUS (Fin 0) PInf (Fin 1)) = Fin 100
   \<and> initial_value MAXIMIZE (example_var INTEGER (Fin 2) (Fin 2) (Fin 1)) = Fin 2"
proof -
  have a: "\<not> is_fixed zero_coefficient_var \<and> \<not> dgt (coefficient zero_coefficient_var) (Fin 0)"
    by (simp add: is_fixed_def zero_coefficient_var_def example_var_def dsub_def dgt_def)
  have b: "\<not> is_fixed (example_var CONTINUOUS (Fin 0) PInf (Fin 1))
           \<and> dgt (coefficient (example_var CONTINUOUS (Fin 0) PInf (Fin 1))) (Fin 0)"
    by (simp add: is_fixed_def example_var_def dsub_def dgt_def)
  have c: "is_fixed (example_var INTEGER (Fin 2) (Fin 2) (Fin 1))"
    by (simp add: is_fixed_def example_var_def dsub_def)
  show ?thesis
    using initial_value_cases [of zero_coefficient_var MINIMIZE]
      initial_value_cases [of "example_var CONTINUOUS (Fin 0) PInf (Fin 1)" MAXIMIZE]
      initial_value_cases [of "example_var INTEGER (Fin 2) (Fin 2) (Fin 1)" MAXIMIZE] a b c
    by (simp add: finite_sentinel_def zero_coefficient_var_def example_var_def)
qed

text \<open>
  C4 as stated fails at objective coefficient zero: for Minimize and bounds \<open>[0, 1]\<close>
  the code assigns the upper bound 1, where the test \<open>obj_coeff \<ge> 0\<close> of the claim gives
  the lower bound 0.
\<close>

theorem initial_value_zero_coefficient_counterexample:
  "initial_value MINIMIZE zero_coefficient_var = Fin 1
   \<and> spec_initial_value MINIMIZE zero_coefficient_var = Fin 0"
  by (simp add: initial_value_def spec_initial_value_def is_fixed_def zero_coefficient_var_def
        example_var_def dsub_def dgt_def dge_def dle_def finite_sentinel_def)

section \<open>Bounds under \<^verbatim>\<open>addBound\<close>\<close>

lemma dmax_ge: "\<not> disnan a \<Longrightarrow> dle a (dmax a b)"
  by (cases a; cases b) (auto simp: dmax_def dle_def)

lemma dmin_le: "\<not> disnan a \<Longrightarrow> dle (dmin a b) a"
  by (cases a; cases b) (auto simp: dmin_def dle_def)

lemma dle_refl: "\<not> disnan a \<Longrightarrow> dle a a"
  by (cases a) (auto simp: dle_def)

lemma length_addBound [simp]: "length (variables (addBound p k lo up)) = length (variables p)"
  by (simp add: addBound_def Let_def)

lemma addBound_interval:
  assumes "i < length (variables p)"
    and "\<not> disnan (lower_bound (variables p ! i))" and "\<not> disnan (upper_bound (variables p ! i))"
  shows "dle (lower_bound (variables p ! i)) (lower_bound (variables (addBound p k lo up) ! i))
         \<and> dle (upper_bound (variables (addBound p k lo up) ! i)) (upper_bound (variables p ! i))"
  using assms
  by (cases "i = nat k")
     (auto simp: addBound_def Let_def setBounds_def dmax_ge dmin_le dle_refl nth_list_update)

section \<open>The choice of the branching variable\<close>

lemma fractional_part_cases:
  "fractional_part v = NaN \<or> (\<exists>r. fractional_part v = Fin r \<and> 0 \<le> r)"
  by (cases v) (auto simp: fractional_part_def dsub_def)

lemma candidate_fin:
  "is_candidate sol p j \<Longrightarrow> \<exists>r. fractional_part (sol ! j) = Fin r \<and> 1 / 10 ^ 6 < r"
  using fractional_part_cases [of "sol ! j"]
  by (auto simp: is_candidate_def dgt_def)

lemma branching_step_inv:
  assumes "branching_inv sol p k s"
  shows "branching_inv sol p (Suc k) (branching_step sol p s k)"
proof -
  obtain bv mx where s: "s = (bv, mx)" by (cases s)
  show ?thesis
  proof (cases "is_candidate sol p k")
    case False
    then have "branching_step sol p s k = s"
      by (auto simp: branching_step_def s is_candidate_def Let_def)
    with assms False show ?thesis
      by (auto simp: branching_inv_def s less_Suc_eq)
  next
    case True
    then obtain r where r: "fractional_part (sol ! k) = Fin r" "1 / 10 ^ 6 < r"
      using candidate_fin by blast
    from True have iv: "is_integer_var (variables p ! k)" "dgt (fractional_part (sol ! k)) (Fin (1 / 10 ^ 6))"
      by (auto simp: is_candidate_def)
    from assms consider
      (none) "bv = - 1" "mx = Fin 0" "\<forall>j<k. \<not> is_candidate sol p j"
      | (some) "0 \<le> bv" "nat bv < k" "is_candidate sol p (nat bv)"
          "mx = fractional_part (sol ! nat bv)"
          "\<forall>j<k. is_candidate sol p j \<longrightarrow> dle (fractional_part (sol ! j)) mx"
          "\<forall>j<nat bv. is_candidate sol p j \<longrightarrow> dlt (fractional_part (sol ! j)) mx"
      by (auto simp: branching_inv_def s)
    then show ?thesis
    proof cases
      case none
      then have "branching_step sol p s k = (int k, Fin r)"
        using iv r by (simp add: branching_step_def s Let_def dgt_def)
      with none True r show ?thesis
        by (auto simp: branching_inv_def less_Suc_eq dle_def)
    next
      case some
      from some(3) obtain m where m: "fractional_part (sol ! nat bv) = Fin m" "1 / 10 ^ 6 < m"
        using candidate_fin by blast
      have fin: "\<exists>q. fractional_part (sol ! j) = Fin q" if "is_candidate sol p j" for j
        using candidate_fin that by blast
      show ?thesis
      proof (cases "m < r")
        case gt: True
        then have st: "branching_step sol p s k = (int k, Fin r)"
          using iv r m some(4) by (simp add: branching_step_def s Let_def dgt_def)
        have a: "dle (fractional_part (sol ! j)) (Fin r)" if "j < Suc k" "is_candidate sol p j" for j
        proof (cases "j = k")
          case True then show ?thesis using r by (simp add: dle_def)
        next
          case False
          with that have "dle (fractional_part (sol ! j)) mx" "j < k" using some(5) by auto
          then show ?thesis using fin [OF that(2)] gt m some(4) by (auto simp: dle_def)
        qed
        have b: "dlt (fractional_part (sol ! j)) (Fin r)" if "j < k" "is_candidate sol p j" for j
        proof -
          from that have "dle (fractional_part (sol ! j)) mx" using some(5) by auto
          then show ?thesis using fin [OF that(2)] gt m some(4) by (auto simp: dle_def)
        qed
        show ?thesis using st True r a b by (auto simp: branching_inv_def)
      next
        case le: False
        then have st: "branching_step sol p s k = s"
          using iv r m some(4) by (simp add: branching_step_def s Let_def dgt_def)
        have "dle (fractional_part (sol ! k)) mx"
          using le r m some(4) by (auto simp: dle_def)
        with some st show ?thesis
          by (auto simp: branching_inv_def s less_Suc_eq)
      qed
    qed
  qed
qed

lemma branching_fold_inv:
  "branching_inv sol p k (foldl (branching_step sol p) (- 1, Fin 0) [0 ..< k])"
proof (induction k)
  case 0
  show ?case by (simp add: branching_inv_def)
next
  case (Suc k)
  then show ?case using branching_step_inv by simp
qed

section \<open>One node of the search\<close>

lemma findBranchingVariable_spec:
  fixes sol p
  defines "bv \<equiv> findBranchingVariable sol p"
  defines "fp \<equiv> \<lambda>j. fractional_part (sol ! j)"
  shows "(bv = - 1 \<longleftrightarrow> (\<forall>j < getNumVariables p. \<not> is_candidate sol p j))
     \<and> (bv \<noteq> - 1 \<longrightarrow>
          0 \<le> bv \<and> nat bv < getNumVariables p \<and> is_candidate sol p (nat bv)
          \<and> (\<forall>j < getNumVariables p. is_integer_var (variables p ! j) \<longrightarrow> \<not> dgt (fp j) (fp (nat bv)))
          \<and> (\<forall>j < nat bv. is_integer_var (variables p ! j) \<longrightarrow> \<not> dge (fp j) (fp (nat bv))))"
proof -
  define n where "n = getNumVariables p"
  obtain b mx where f: "foldl (branching_step sol p) (- 1, Fin 0) [0 ..< n] = (b, mx)"
    by (cases "foldl (branching_step sol p) (- 1, Fin 0) [0 ..< n]")
  have b: "b = bv" using f by (simp add: bv_def findBranchingVariable_def n_def)
  have inv: "branching_inv sol p n (b, mx)"
    using branching_fold_inv [of sol p n] f by simp
  show ?thesis
  proof (cases "b = - 1")
    case True
    with inv show ?thesis unfolding b n_def [symmetric] by (auto simp: branching_inv_def)
  next
    case False
    with inv have h: "0 \<le> b" "nat b < n" "is_candidate sol p (nat b)" "mx = fp (nat b)"
      "\<forall>j<n. is_candidate sol p j \<longrightarrow> dle (fp j) mx"
      "\<forall>j<nat b. is_candidate sol p j \<longrightarrow> dlt (fp j) mx"
      by (auto simp: branching_inv_def fp_def)
    from h(3) obtain m where m: "fp (nat b) = Fin m" "1 / 10 ^ 6 < m"
      using candidate_fin fp_def by blast
    have c1: "\<not> dgt (fp j) (fp (nat b))" if "j < n" "is_integer_var (variables p ! j)" for j
    proof (cases "is_candidate sol p j")
      case True
      with h(5) that have "dle (fp j) mx" by simp
      moreover obtain q where "fp j = Fin q" using candidate_fin True fp_def by blast
      ultimately show ?thesis using m h(4) by (auto simp: dle_def dgt_def)
    next
      case False
      with that have "\<not> dgt (fp j) (Fin (1 / 10 ^ 6))" by (simp add: is_candidate_def fp_def)
      then show ?thesis using m fractional_part_cases [of "sol ! j"]
        by (auto simp: dgt_def fp_def)
    qed
    have c2: "\<not> dge (fp j) (fp (nat b))" if "j < nat b" "is_integer_var (variables p ! j)" for j
    proof (cases "is_candidate sol p j")
      case True
      with h(6) that have "dlt (fp j) mx" by simp
      moreover obtain q where "fp j = Fin q" using candidate_fin True fp_def by blast
      ultimately show ?thesis using m h(4) by (auto simp: dle_def dge_def)
    next
      case False
      with that have "\<not> dgt (fp j) (Fin (1 / 10 ^ 6))" by (simp add: is_candidate_def fp_def)
      then show ?thesis using m fractional_part_cases [of "sol ! j"]
        by (auto simp: dgt_def dge_def dle_def fp_def)
    qed
    from False h c1 c2 show ?thesis unfolding b [symmetric] n_def [symmetric]
      by auto
  qed
qed

lemma process_node_branch:
  assumes "process_node st cur = Continue st'" and "node_stack st' \<noteq> node_stack st"
  defines "lp \<equiv> solveLPRelaxation (problem cur)"
  defines "bv \<equiv> findBranchingVariable (solution lp) (caller_problem st)"
  shows "bv \<noteq> - 1 \<and> \<not> is_infeasible lp
     \<and> \<not> shouldPrune (objective_value lp) (best_objective st) (objective_type (caller_problem st))
     \<and> \<not> isIntegerFeasible (solution lp) (caller_problem st)
     \<and> st' = st\<lparr>node_stack :=
                  left_child cur bv (solution lp ! nat bv) (objective_value lp)
                  # right_child cur bv (solution lp ! nat bv) (objective_value lp)
                  # node_stack st\<rparr>"
  using assms(1,2) unfolding lp_def bv_def
  by (auto simp: process_node_def Let_def split: if_splits)

lemma process_node_caller:
  "process_node st cur = Continue st' \<Longrightarrow> caller_problem st' = caller_problem st"
  by (auto simp: process_node_def Let_def split: if_splits)

lemma process_node_stack:
  "process_node st cur = Continue st' \<Longrightarrow>
     node_stack st' = node_stack st
     \<or> (\<exists>bv x obj. node_stack st' = left_child cur bv x obj # right_child cur bv x obj # node_stack st)"
proof (cases "node_stack st' = node_stack st")
  case True
  then show ?thesis by simp
next
  case False
  assume "process_node st cur = Continue st'"
  from process_node_branch [OF this False]
  have "node_stack st' =
      left_child cur (findBranchingVariable (solution (solveLPRelaxation (problem cur))) (caller_problem st))
        (solution (solveLPRelaxation (problem cur))
          ! nat (findBranchingVariable (solution (solveLPRelaxation (problem cur))) (caller_problem st)))
        (objective_value (solveLPRelaxation (problem cur)))
      # right_child cur (findBranchingVariable (solution (solveLPRelaxation (problem cur))) (caller_problem st))
        (solution (solveLPRelaxation (problem cur))
          ! nat (findBranchingVariable (solution (solveLPRelaxation (problem cur))) (caller_problem st)))
        (objective_value (solveLPRelaxation (problem cur)))
      # node_stack st"
    by simp
  then show ?thesis by blast
qed

lemma bb_step_caller:
  "bb_step st = Continue st' \<Longrightarrow> caller_problem st' = caller_problem st"
  by (auto simp: bb_step_def split: list.splits dest: process_node_caller)

lemma bb_loop_caller:
  "bb_loop il st = Continue st' \<Longrightarrow> caller_problem st' = caller_problem st"
proof (induction il st rule: bb_loop.induct)
  case (1 il st)
  show ?case
  proof (cases "node_stack st \<noteq> [] \<and> nodes_processed st < il")
    case True
    obtain st1 where s: "bb_step st = Continue st1"
      using bb_step_Continue by blast
    with True "1.prems" have "bb_loop il st1 = Continue st'"
      by (subst (asm) bb_loop.simps) simp
    with "1.IH"[OF True s] bb_step_caller [OF s] show ?thesis by simp
  next
    case False
    with "1.prems" show ?thesis by (subst (asm) bb_loop.simps) auto
  qed
qed

lemma bb_step_Cons:
  "node_stack st = cur # rest \<Longrightarrow>
   bb_step st = process_node (st\<lparr>node_stack := rest, nodes_processed := nodes_processed st + 1\<rparr>) cur"
  by (simp add: bb_step_def)

lemma lp_objective:
  "\<not> is_infeasible (solveLPRelaxation q) \<Longrightarrow>
   objective_value (solveLPRelaxation q) = calculateObjectiveValue q (solution (solveLPRelaxation q))"
  by (auto simp: solveLPRelaxation_def solveLPWithBounds_def Let_def split: prod.splits if_splits)

text \<open>
  C3, as the code has it. When the LP solution of a node passes the integrality test (and
  the node is neither infeasible nor pruned by its bound), the node is not branched: the
  stack is the one left after the pop. The incumbent is replaced exactly when the LP
  objective is better than the current incumbent by \<^verbatim>\<open>isBetterSolution\<close>, and then by the
  LP objective and the LP solution themselves: the values are not rounded and the
  objective, the one of the LP solution, is not recomputed.
\<close>

theorem integer_feasible_node:
  fixes st cur rest
  defines "lp \<equiv> solveLPRelaxation (problem cur)"
  defines "ot \<equiv> objective_type (caller_problem st)"
  assumes "node_stack st = cur # rest"
    and "\<not> is_infeasible lp"
    and "\<not> shouldPrune (objective_value lp) (best_objective st) ot"
    and "isIntegerFeasible (solution lp) (caller_problem st)"
  shows "\<exists>st'. bb_step st = Continue st' \<and> node_stack st' = rest
     \<and> objective_value lp = calculateObjectiveValue (problem cur) (solution lp)
     \<and> (if isBetterSolution (objective_value lp) (best_objective st) ot
         then best_objective st' = objective_value lp \<and> best_solution st' = solution lp
         else best_objective st' = best_objective st \<and> best_solution st' = best_solution st)"
  using assms(3-6) lp_objective [of "problem cur"] solveLP_is_unbounded [of "problem cur"]
  unfolding lp_def ot_def
  by (simp add: bb_step_Cons process_node_def Let_def solveLPRelaxation_def)

theorem integer_feasible_node_witness:
  "\<exists>st'. bb_step (initial_state near_integer_problem) = Continue st' \<and> node_stack st' = []
     \<and> best_objective st' = Fin (2097151 / 2097152)
     \<and> best_solution st' = [Fin (2097151 / 2097152)]"
proof -
  define root where "root = hd (node_stack (initial_state near_integer_problem))"
  have s: "node_stack (initial_state near_integer_problem) = root # []"
    by (simp add: root_def initial_state_def)
  have pr: "problem root = near_integer_problem"
    by (simp add: root_def initial_state_def)
  have cp: "caller_problem (initial_state near_integer_problem) = near_integer_problem"
    by (simp add: initial_state_def)
  have lp: "solveLPRelaxation near_integer_problem =
      \<lparr>is_optimal = True, is_unbounded = False, is_infeasible = False,
       solution = [Fin (2097151 / 2097152)], objective_value = Fin (2097151 / 2097152),
       iterations = 1\<rparr>"
    by code_simp
  have bo: "best_objective (initial_state near_integer_problem) = NInf"
    by code_simp
  have ot: "objective_type near_integer_problem = MAXIMIZE"
    by code_simp
  have a: "\<not> shouldPrune (Fin (2097151 / 2097152)) NInf MAXIMIZE"
    by code_simp
  have b: "isIntegerFeasible [Fin (2097151 / 2097152)] near_integer_problem"
    by code_simp
  have c: "isBetterSolution (Fin (2097151 / 2097152)) NInf MAXIMIZE"
    by code_simp
  from integer_feasible_node [OF s] a b c
  have "\<exists>st'. bb_step (initial_state near_integer_problem) = Continue st' \<and> node_stack st' = []
     \<and> Fin (2097151 / 2097152)
         = calculateObjectiveValue near_integer_problem [Fin (2097151 / 2097152)]
     \<and> best_objective st' = Fin (2097151 / 2097152)
     \<and> best_solution st' = [Fin (2097151 / 2097152)]"
    by (simp add: pr cp lp bo ot)
  then show ?thesis by blast
qed

text \<open>
  C3 as stated fails: for an integer variable with upper bound \<open>1 - 2^-21\<close>, within
  \<^verbatim>\<open>1e-6\<close> of 1, the solver returns that value and that objective, not the rounded 1.
\<close>

theorem incumbent_not_rounded_counterexample:
  "status (solve 1000 near_integer_problem) = OPTIMAL
   \<and> sol_values (solve 1000 near_integer_problem) = [Fin (2097151 / 2097152)]
   \<and> sol_objective_value (solve 1000 near_integer_problem) = Fin (2097151 / 2097152)
   \<and> dround (Fin (2097151 / 2097152)) = Fin 1"
  by code_simp


section \<open>Branching\<close>

lemma same_model_length:
  "same_model p q \<Longrightarrow> length (variables q) = length (variables p)"
  by (auto simp: same_model_def dest: map_eq_imp_length_eq)

lemma dmax_NInf [simp]: "dmax a NInf = a"
  by (cases a) (simp_all add: dmax_def)

lemma dmin_PInf [simp]: "dmin a PInf = a"
  by (cases a) (simp_all add: dmin_def)

lemma addBound_nth:
  "in_range k (variables p) \<Longrightarrow>
   variables (addBound p k lo up) ! nat k =
     setBounds (variables p ! nat k) (dmax (lower_bound (variables p ! nat k)) lo)
       (dmin (upper_bound (variables p ! nat k)) up)"
  by (simp add: addBound_def Let_def in_range_def)

lemma addBound_other:
  "j \<noteq> nat k \<Longrightarrow> variables (addBound p k lo up) ! j = variables p ! j"
  by (simp add: addBound_def Let_def)

lemma split_repair_stack:
  "node_stack (initial_state split_repair_problem)
     = \<lparr>problem = split_repair_problem, bound = PInf, depth = 0\<rparr> # []"
  by code_simp

lemma split_repair_caller:
  "caller_problem (initial_state split_repair_problem) = split_repair_problem"
  by (simp add: initial_state_def)

lemma split_repair_branched:
  "case bb_step (initial_state split_repair_problem) of
     Continue s \<Rightarrow> node_stack s \<noteq> [] | ReturnUnbounded s \<Rightarrow> False"
  by code_simp

lemma split_repair_lp:
  "solveLPRelaxation split_repair_problem =
     \<lparr>is_optimal = True, is_unbounded = False, is_infeasible = False,
      solution = [Fin (5 / 6), Fin (5 / 6), Fin (5 / 6)],
      objective_value = Fin (25 / 2), iterations = 1\<rparr>"
  by code_simp

lemma split_repair_branch_var:
  "findBranchingVariable [Fin (5 / 6), Fin (5 / 6), Fin (5 / 6)] split_repair_problem = 0"
  by code_simp

lemma split_repair_var0:
  "variables split_repair_problem ! 0 = example_var INTEGER (Fin 0) (Fin 1) (Fin 3)"
  "length (variables split_repair_problem) = 3"
  by (simp_all add: split_repair_problem_def)

text \<open>
  C9. For each of the two children that a step of the search pushes, and for every
  variable \<open>i\<close> of the parent node whose bounds are not NaN, the child has the same
  number of variables, its lower bound is at least the parent's and its upper bound at
  most the parent's.
\<close>

theorem child_bounds_subset:
  assumes step: "bb_step st = Continue st'"
    and stack: "node_stack st = cur # rest"
    and branched: "node_stack st' \<noteq> rest"
  shows "\<exists>lc rc. node_stack st' = lc # rc # rest
     \<and> (\<forall>c \<in> {lc, rc}.
          length (variables (problem c)) = length (variables (problem cur))
          \<and> (\<forall>i < length (variables (problem cur)).
                \<not> disnan (lower_bound (variables (problem cur) ! i))
                \<and> \<not> disnan (upper_bound (variables (problem cur) ! i)) \<longrightarrow>
                dle (lower_bound (variables (problem cur) ! i))
                    (lower_bound (variables (problem c) ! i))
                \<and> dle (upper_bound (variables (problem c) ! i))
                      (upper_bound (variables (problem cur) ! i))))"
proof -
  let ?st1 = "st\<lparr>node_stack := rest, nodes_processed := nodes_processed st + 1\<rparr>"
  have pn: "process_node ?st1 cur = Continue st'"
    using step stack by (simp add: bb_step_Cons)
  from process_node_stack [OF pn] branched
  obtain bv x obj where
    "node_stack st' = left_child cur bv x obj # right_child cur bv x obj # rest"
    by auto
  moreover have "length (variables (problem c)) = length (variables (problem cur))
          \<and> (\<forall>i < length (variables (problem cur)).
                \<not> disnan (lower_bound (variables (problem cur) ! i))
                \<and> \<not> disnan (upper_bound (variables (problem cur) ! i)) \<longrightarrow>
                dle (lower_bound (variables (problem cur) ! i))
                    (lower_bound (variables (problem c) ! i))
                \<and> dle (upper_bound (variables (problem c) ! i))
                      (upper_bound (variables (problem cur) ! i)))"
    if "c \<in> {left_child cur bv x obj, right_child cur bv x obj}" for c
    using that addBound_interval
    by (auto simp: left_child_def right_child_def)
  ultimately show ?thesis by blast
qed

theorem child_bounds_subset_witness:
  "\<exists>st' lc rc. bb_step (initial_state split_repair_problem) = Continue st'
      \<and> node_stack st' = [lc, rc]
      \<and> dle (Fin 0) (lower_bound (variables (problem rc) ! 0))
      \<and> dle (upper_bound (variables (problem lc) ! 0)) (Fin 1)"
proof -
  obtain st' where step: "bb_step (initial_state split_repair_problem) = Continue st'"
    using bb_step_Continue by blast
  with split_repair_branched have br: "node_stack st' \<noteq> []" by simp
  from child_bounds_subset [OF step split_repair_stack br]
  obtain lc rc where st': "node_stack st' = [lc, rc]"
    and sub: "\<forall>c \<in> {lc, rc}. \<forall>i < length (variables split_repair_problem).
        \<not> disnan (lower_bound (variables split_repair_problem ! i))
        \<and> \<not> disnan (upper_bound (variables split_repair_problem ! i)) \<longrightarrow>
        dle (lower_bound (variables split_repair_problem ! i))
            (lower_bound (variables (problem c) ! i))
        \<and> dle (upper_bound (variables (problem c) ! i))
              (upper_bound (variables split_repair_problem ! i))"
    by auto
  have nn: "0 < length (variables split_repair_problem)"
    "\<not> disnan (lower_bound (variables split_repair_problem ! 0))
     \<and> \<not> disnan (upper_bound (variables split_repair_problem ! 0))"
    by (simp_all add: split_repair_var0 example_var_def)
  from sub nn have "dle (lower_bound (variables split_repair_problem ! 0))
            (lower_bound (variables (problem rc) ! 0))
        \<and> dle (upper_bound (variables (problem lc) ! 0))
              (upper_bound (variables split_repair_problem ! 0))"
    by blast
  then have "dle (Fin 0) (lower_bound (variables (problem rc) ! 0))
      \<and> dle (upper_bound (variables (problem lc) ! 0)) (Fin 1)"
    by (simp add: split_repair_var0 example_var_def)
  with step st' show ?thesis by blast
qed

text \<open>
  C8. The caller's Problem, which \<^verbatim>\<open>solve\<close> reaches through a const reference, is the
  same object value after the loop as before it, for every problem and iteration limit.
  Each step leaves it unchanged and leaves the nodes already on the stack as they are;
  the bound tightenings of \<^verbatim>\<open>addBound\<close> go to the Problems of the two new nodes, which
  are copies of the node popped.
\<close>

theorem caller_problem_unchanged:
  "(\<exists>st. bb_loop il (initial_state p) = Continue st \<and> caller_problem st = p)
   \<and> (bb_step st = Continue st' \<and> node_stack st = cur # rest \<longrightarrow>
        caller_problem st' = caller_problem st
        \<and> (node_stack st' = rest
            \<or> (\<exists>bv x obj. node_stack st'
                  = cur\<lparr>depth := depth cur + 1,
                        problem := addBound (problem cur) bv NInf (dfloor x), bound := obj\<rparr>
                    # cur\<lparr>depth := depth cur + 1,
                          problem := addBound (problem cur) bv (dceil x) PInf, bound := obj\<rparr>
                    # rest)))"
proof -
  obtain s where s: "bb_loop il (initial_state p) = Continue s"
    using bb_loop_Continue by blast
  from bb_loop_caller [OF s] have "caller_problem s = p"
    by (simp add: initial_state_def)
  with s have a: "\<exists>st. bb_loop il (initial_state p) = Continue st \<and> caller_problem st = p"
    by blast
  have b: "caller_problem st' = caller_problem st
        \<and> (node_stack st' = rest
            \<or> (\<exists>bv x obj. node_stack st'
                  = cur\<lparr>depth := depth cur + 1,
                        problem := addBound (problem cur) bv NInf (dfloor x), bound := obj\<rparr>
                    # cur\<lparr>depth := depth cur + 1,
                          problem := addBound (problem cur) bv (dceil x) PInf, bound := obj\<rparr>
                    # rest))"
    if step: "bb_step st = Continue st'" and stack: "node_stack st = cur # rest"
  proof -
    let ?st1 = "st\<lparr>node_stack := rest, nodes_processed := nodes_processed st + 1\<rparr>"
    have pn: "process_node ?st1 cur = Continue st'"
      using step stack by (simp add: bb_step_Cons)
    from process_node_stack [OF pn] bb_step_caller [OF step] show ?thesis
      by (auto simp: left_child_def right_child_def)
  qed
  from a b show ?thesis by blast
qed

theorem caller_problem_unchanged_witness:
  "\<exists>st'. bb_step (initial_state split_repair_problem) = Continue st'
      \<and> caller_problem st' = split_repair_problem \<and> length (node_stack st') = 2"
proof -
  obtain st' where step: "bb_step (initial_state split_repair_problem) = Continue st'"
    using bb_step_Continue by blast
  with split_repair_branched have br: "node_stack st' \<noteq> []" by simp
  have "bb_step (initial_state split_repair_problem) = Continue st'
      \<and> node_stack (initial_state split_repair_problem)
          = \<lparr>problem = split_repair_problem, bound = PInf, depth = 0\<rparr> # [] \<longrightarrow>
      caller_problem st' = caller_problem (initial_state split_repair_problem)
      \<and> (node_stack st' = []
          \<or> (\<exists>bv x obj. node_stack st'
                = \<lparr>problem = split_repair_problem, bound = PInf, depth = 0\<rparr>
                    \<lparr>depth := depth \<lparr>problem = split_repair_problem, bound = PInf, depth = 0\<rparr> + 1,
                     problem := addBound (problem \<lparr>problem = split_repair_problem, bound = PInf, depth = 0\<rparr>) bv NInf (dfloor x),
                     bound := obj\<rparr>
                  # \<lparr>problem = split_repair_problem, bound = PInf, depth = 0\<rparr>
                    \<lparr>depth := depth \<lparr>problem = split_repair_problem, bound = PInf, depth = 0\<rparr> + 1,
                     problem := addBound (problem \<lparr>problem = split_repair_problem, bound = PInf, depth = 0\<rparr>) bv (dceil x) PInf,
                     bound := obj\<rparr>
                  # []))"
    by (rule caller_problem_unchanged [THEN conjunct2])
  with step split_repair_stack br
  have "caller_problem st' = split_repair_problem \<and> length (node_stack st') = 2"
    by (auto simp: split_repair_caller)
  with step show ?thesis by blast
qed


section \<open>What the LP relaxation solver accepts\<close>

text \<open>Every adjustable index is a key of the coefficient map, so the lookup in the
  second loop of \<^verbatim>\<open>fixConstraintViolation\<close> finds it.\<close>

lemma find_adjustable_fold_keys:
  "set (fst (foldl (\<lambda>(adjustable_vars, total_weight) (var_idx, coeff).
              if in_range var_idx sol \<and> dgt (dabs coeff) (Fin (1 / 10 ^ 9))
                 \<and> can_adjust p sol tc var_idx coeff
              then (adjustable_vars @ [var_idx], dadd total_weight (dabs coeff))
              else (adjustable_vars, total_weight)) (acc, w) coeffs))
     \<subseteq> set acc \<union> fst ` set coeffs"
proof (induction coeffs arbitrary: acc w)
  case Nil
  show ?case by simp
next
  case (Cons c cs)
  obtain k v where c: "c = (k, v)" by (cases c)
  show ?case
    using Cons.IH [of "acc @ [k]" "dadd w (dabs v)"] Cons.IH [of acc w]
    by (auto simp: c)
qed

lemma find_adjustable_keys:
  "k \<in> set (fst (find_adjustable p sol tc coeffs)) \<Longrightarrow> \<exists>coeff. map_of coeffs k = Some coeff"
proof -
  assume "k \<in> set (fst (find_adjustable p sol tc coeffs))"
  with find_adjustable_fold_keys [of sol p tc "[]" "Fin 0" coeffs]
  have "k \<in> fst ` set coeffs" by (auto simp: find_adjustable_def)
  then show ?thesis by (metis map_of_eq_None_iff option.exhaust)
qed

lemma length_adjust_var [simp]:
  "length (adjust_var p coeffs tc tw sol k) = length sol"
  by (simp add: adjust_var_def Let_def split: option.splits)

lemma length_foldl_adjust [simp]:
  "length (foldl (adjust_var p coeffs tc tw) sol ks) = length sol"
  by (induction ks arbitrary: sol) simp_all

lemma length_fixConstraintViolation [simp]:
  "length (fixConstraintViolation p sol c lhs r t) = length sol"
  by (simp add: fixConstraintViolation_def Let_def split: prod.splits)

lemma repair_fold_length:
  "foldl (repair_constraint p) (a, mv, sol) cs = (a', mv', sol') \<Longrightarrow> length sol' = length sol"
proof (induction cs arbitrary: a mv sol)
  case Nil
  then show ?case by simp
next
  case (Cons c cs)
  obtain a1 mv1 sol1 where s: "repair_constraint p (a, mv, sol) c = (a1, mv1, sol1)"
    by (cases "repair_constraint p (a, mv, sol) c")
  then have "length sol1 = length sol"
    by (auto simp: repair_constraint_def Let_def split: option.splits)
  moreover from Cons.prems s have "foldl (repair_constraint p) (a1, mv1, sol1) cs = (a', mv', sol')"
    by simp
  ultimately show ?case using Cons.IH by fastforce
qed

lemma repair_fold_satisfied:
  "foldl (repair_constraint p) (a, mv, sol) cs = (True, mv', sol') \<Longrightarrow>
     a \<and> sol' = sol \<and> list_all (\<lambda>c. within_tolerance c sol) cs"
proof (induction cs arbitrary: a mv sol)
  case Nil
  then show ?case by simp
next
  case (Cons c cs)
  obtain a1 mv1 sol1 where s: "repair_constraint p (a, mv, sol) c = (a1, mv1, sol1)"
    by (cases "repair_constraint p (a, mv, sol) c")
  from Cons.prems s have f: "foldl (repair_constraint p) (a1, mv1, sol1) cs = (True, mv', sol')"
    by simp
  from Cons.IH [OF f] have ih: "a1" "sol' = sol1" "list_all (\<lambda>c. within_tolerance c sol1) cs"
    by simp_all
  from s ih(1) have "a \<and> sol1 = sol \<and> within_tolerance c sol"
    by (auto simp: repair_constraint_def within_tolerance_def Let_def split: option.splits)
  with ih show ?case by simp
qed

lemma repair_pass_satisfied:
  "repair_pass p sol = (True, mv, sol') \<Longrightarrow> sol' = sol \<and> all_within_tolerance p sol"
  unfolding repair_pass_def all_within_tolerance_def
  by (drule repair_fold_satisfied) simp

lemma repair_pass_length:
  "repair_pass p sol = (a, mv, sol') \<Longrightarrow> length sol' = length sol"
  unfolding repair_pass_def by (rule repair_fold_length)

lemma satisfy_loop_accepts:
  "satisfy_loop p iter sol = (True, sol') \<Longrightarrow> lp_accepted p sol'"
proof (induction p iter sol rule: satisfy_loop.induct)
  case (1 p iter sol)
  show ?case
  proof (cases "iter < 20")
    case False
    with "1.prems" show ?thesis
      by (subst (asm) satisfy_loop.simps) (auto simp: lp_accepted_def)
  next
    case True
    obtain a mv s1 where rp: "repair_pass p sol = (a, mv, s1)"
      by (cases "repair_pass p sol")
    show ?thesis
    proof (cases a)
      case True
      with rp \<open>iter < 20\<close> "1.prems" have "sol' = s1"
        by (subst (asm) satisfy_loop.simps) simp
      with repair_pass_satisfied rp True show ?thesis
        by (auto simp: lp_accepted_def)
    next
      case False
      show ?thesis
      proof (cases "5 < iter \<and> dgt mv (Fin 1)")
        case True
        with rp \<open>iter < 20\<close> \<open>\<not> a\<close> "1.prems" show ?thesis
          by (subst (asm) satisfy_loop.simps) simp
      next
        case f2: False
        with rp \<open>iter < 20\<close> \<open>\<not> a\<close> "1.prems"
        have "satisfy_loop p (iter + 1) s1 = (True, sol')"
          by (subst (asm) satisfy_loop.simps) auto
        with "1.IH" [OF \<open>iter < 20\<close> rp [symmetric] refl \<open>\<not> a\<close> f2] show ?thesis
          by simp
      qed
    qed
  qed
qed

lemma satisfy_loop_length:
  "satisfy_loop p iter sol = (ok, sol') \<Longrightarrow> length sol' = length sol"
proof (induction p iter sol rule: satisfy_loop.induct)
  case (1 p iter sol)
  show ?case
  proof (cases "iter < 20")
    case False
    with "1.prems" show ?thesis
      by (subst (asm) satisfy_loop.simps) auto
  next
    case True
    obtain a mv s1 where rp: "repair_pass p sol = (a, mv, s1)"
      by (cases "repair_pass p sol")
    note len = repair_pass_length [OF rp]
    show ?thesis
    proof (cases "a \<or> (5 < iter \<and> dgt mv (Fin 1))")
      case True
      with rp \<open>iter < 20\<close> "1.prems" have "sol' = s1"
        by (subst (asm) satisfy_loop.simps) (auto split: if_splits)
      with len show ?thesis by simp
    next
      case False
      with rp \<open>iter < 20\<close> "1.prems"
      have "satisfy_loop p (iter + 1) s1 = (ok, sol')"
        by (subst (asm) satisfy_loop.simps) auto
      with "1.IH" [OF \<open>iter < 20\<close> rp [symmetric] refl] False len show ?thesis
        by simp
    qed
  qed
qed

lemma lp_feasible_facts:
  assumes "\<not> is_infeasible (solveLPRelaxation q)"
  shows "length (solution (solveLPRelaxation q)) = length (variables q)"
    and "lp_accepted q (solution (solveLPRelaxation q))"
proof -
  obtain ok sol where sc: "satisfyConstraints q (initial_solution q) = (ok, sol)"
    by (cases "satisfyConstraints q (initial_solution q)")
  from assms sc have ok: "ok" and r: "solution (solveLPRelaxation q) = sol"
    by (auto simp: solveLPRelaxation_def solveLPWithBounds_def Let_def split: if_splits)
  from sc ok have sl: "satisfy_loop q 0 (initial_solution q) = (True, sol)"
    by (simp add: satisfyConstraints_def)
  from satisfy_loop_length [OF sl] show "length (solution (solveLPRelaxation q)) = length (variables q)"
    by (simp add: r initial_solution_def)
  from satisfy_loop_accepts [OF sl] show "lp_accepted q (solution (solveLPRelaxation q))"
    by (simp add: r)
qed

section \<open>The invariant of the search\<close>

lemma same_model_refl: "same_model p p"
  by (simp add: same_model_def)

lemma map_update_same:
  assumes e: "f x = f (xs ! k)"
  shows "map f (xs[k := x]) = map f xs"
proof (rule nth_equalityI)
  show "length (map f (xs[k := x])) = length (map f xs)" by simp
next
  fix i assume "i < length (map f (xs[k := x]))"
  then have i: "i < length xs" by simp
  show "map f (xs[k := x]) ! i = map f xs ! i"
    using i e by (cases "i = k") simp_all
qed

lemma same_model_addBound: "same_model p q \<Longrightarrow> same_model p (addBound q k lo up)"
  by (simp add: same_model_def addBound_def Let_def setBounds_def map_update_same)

lemma objective_by_coefficients:
  "foldl (\<lambda>v (var, x). dadd v (dmul (coefficient var) x)) a (zip vs sol)
     = foldl (\<lambda>v (c, x). dadd v (dmul c x)) a (zip (map coefficient vs) sol)"
proof (induction vs arbitrary: a sol)
  case Nil
  show ?case by simp
next
  case (Cons v vs)
  show ?case by (cases sol) (simp_all add: Cons.IH)
qed

lemma same_model_objective:
  "same_model p q \<Longrightarrow> calculateObjectiveValue q sol = calculateObjectiveValue p sol"
  by (simp add: calculateObjectiveValue_def objective_by_coefficients same_model_def)

lemma same_model_accepted:
  "same_model p q \<Longrightarrow> lp_accepted q sol = lp_accepted p sol"
  by (simp add: lp_accepted_def all_within_tolerance_def total_violation_def same_model_def)

lemma dlt_NaN_right [simp]: "dlt a NaN = False"
  by (cases a) simp_all

lemma isBetterSolution_not_nan: "isBetterSolution new best ot \<Longrightarrow> \<not> disnan new"
  by (cases new) (auto simp: isBetterSolution_def dgt_def split: if_splits)

lemma search_inv_initial: "search_inv p (initial_state p)"
  by (simp add: search_inv_def initial_state_def same_model_refl incumbent_ok_def)

lemma process_node_inv:
  assumes inv: "search_inv p st" and cur: "same_model p (problem cur)"
    and pn: "process_node st cur = Continue st'"
  shows "search_inv p st'"
proof -
  let ?lp = "solveLPRelaxation (problem cur)"
  from inv have cp: "caller_problem st = p" by (simp add: search_inv_def)
  show ?thesis
  proof (cases "node_stack st' = node_stack st")
    case False
    from process_node_branch [OF pn False]
    have "st' = st\<lparr>node_stack :=
                  left_child cur (findBranchingVariable (solution ?lp) (caller_problem st))
                    (solution ?lp ! nat (findBranchingVariable (solution ?lp) (caller_problem st)))
                    (objective_value ?lp)
                  # right_child cur (findBranchingVariable (solution ?lp) (caller_problem st))
                    (solution ?lp ! nat (findBranchingVariable (solution ?lp) (caller_problem st)))
                    (objective_value ?lp)
                  # node_stack st\<rparr>"
      by simp
    with inv cur show ?thesis
      by (simp add: search_inv_def left_child_def right_child_def same_model_addBound)
  next
    case True
    show ?thesis
    proof (cases "best_objective st' = best_objective st \<and> best_solution st' = best_solution st")
      case same: True
      with inv True process_node_caller [OF pn] show ?thesis
        by (simp add: search_inv_def)
    next
      case changed: False
      with pn have f: "\<not> is_infeasible ?lp" "isIntegerFeasible (solution ?lp) p"
        "isBetterSolution (objective_value ?lp) (best_objective st) (objective_type p)"
        "best_objective st' = objective_value ?lp" "best_solution st' = solution ?lp"
        by (auto simp: process_node_def Let_def cp split: if_splits)
      from lp_feasible_facts [OF f(1)] cur
      have "length (solution ?lp) = getNumVariables p" "lp_accepted p (solution ?lp)"
        by (simp_all add: same_model_length same_model_accepted getNumVariables_def)
      moreover from lp_objective [OF f(1)] cur
      have "objective_value ?lp = calculateObjectiveValue p (solution ?lp)"
        by (simp add: same_model_objective)
      ultimately show ?thesis
        using inv True process_node_caller [OF pn] f isBetterSolution_not_nan [OF f(3)]
        by (simp add: search_inv_def incumbent_ok_def)
    qed
  qed
qed

lemma bb_step_inv:
  assumes "search_inv p st" and "bb_step st = Continue st'"
  shows "search_inv p st'"
proof (cases "node_stack st")
  case Nil
  with assms show ?thesis by (simp add: bb_step_def)
next
  case (Cons cur rest)
  let ?st1 = "st\<lparr>node_stack := rest, nodes_processed := nodes_processed st + 1\<rparr>"
  from assms(1) Cons have "search_inv p ?st1" "same_model p (problem cur)"
    by (simp_all add: search_inv_def)
  moreover from assms(2) Cons have "process_node ?st1 cur = Continue st'"
    by (simp add: bb_step_Cons)
  ultimately show ?thesis by (rule process_node_inv)
qed

lemma search_state_inv: "search_state p st \<Longrightarrow> search_inv p st"
  by (induction rule: search_state.induct) (auto intro: search_inv_initial bb_step_inv)


text \<open>
  C6. When \<^verbatim>\<open>solve\<close> branches at a node (a step from a state of the search pushes
  children), the branching
  variable is an Integer or Binary variable whose fractional part \<open>|x - round(x)|\<close>
  exceeds \<^verbatim>\<open>1e-6\<close>; no Integer or Binary variable has a larger fractional part, and none
  of smaller index has a fractional part as large (ties go to the smaller index). The
  value \<open>x\<close> branched on is finite. The down child is the node with the upper bound of
  that variable intersected with \<open>\<lfloor>x\<rfloor>\<close>, the up child the node with its lower bound
  intersected with \<open>\<lceil>x\<rceil>\<close>, and no other variable changes. The up child is pushed
  first and the down child second, so the stack is down, up, rest and the next step
  processes the down child.
\<close>

theorem branching_rule:
  fixes st cur rest
  defines "p \<equiv> caller_problem st"
  defines "lp \<equiv> solveLPRelaxation (problem cur)"
  defines "bv \<equiv> findBranchingVariable (solution lp) p"
  defines "x \<equiv> solution lp ! nat bv"
  defines "fp \<equiv> \<lambda>j. fractional_part (solution lp ! j)"
  defines "down \<equiv> left_child cur bv x (objective_value lp)"
  defines "up \<equiv> right_child cur bv x (objective_value lp)"
  assumes step: "bb_step st = Continue st'"
    and stack: "node_stack st = cur # rest"
    and branched: "node_stack st' \<noteq> rest"
    and reach: "search_state p0 st"
  shows "0 \<le> bv \<and> nat bv < getNumVariables p
     \<and> is_integer_var (variables p ! nat bv) \<and> dgt (fp (nat bv)) (Fin (1 / 10 ^ 6))
     \<and> (\<forall>j < getNumVariables p. is_integer_var (variables p ! j) \<longrightarrow> \<not> dgt (fp j) (fp (nat bv)))
     \<and> (\<forall>j < nat bv. is_integer_var (variables p ! j) \<longrightarrow> \<not> dge (fp j) (fp (nat bv)))
     \<and> (\<exists>r. x = Fin r \<and> dfloor x = Fin (of_int \<lfloor>r\<rfloor>) \<and> dceil x = Fin (of_int \<lceil>r\<rceil>))
     \<and> upper_bound (variables (problem down) ! nat bv)
         = dmin (upper_bound (variables (problem cur) ! nat bv)) (dfloor x)
     \<and> lower_bound (variables (problem down) ! nat bv)
         = lower_bound (variables (problem cur) ! nat bv)
     \<and> lower_bound (variables (problem up) ! nat bv)
         = dmax (lower_bound (variables (problem cur) ! nat bv)) (dceil x)
     \<and> upper_bound (variables (problem up) ! nat bv)
         = upper_bound (variables (problem cur) ! nat bv)
     \<and> (\<forall>j. j \<noteq> nat bv \<longrightarrow> variables (problem down) ! j = variables (problem cur) ! j
                          \<and> variables (problem up) ! j = variables (problem cur) ! j)
     \<and> node_stack st' = down # up # rest
     \<and> bb_step st'
         = process_node (st'\<lparr>node_stack := up # rest, nodes_processed := nodes_processed st' + 1\<rparr>)
             down"
proof -
  let ?st1 = "st\<lparr>node_stack := rest, nodes_processed := nodes_processed st + 1\<rparr>"
  have same: "same_model p (problem cur)"
    using search_state_inv [OF reach] stack by (simp add: search_inv_def p_def)
  have pn: "process_node ?st1 cur = Continue st'"
    using step stack by (simp add: bb_step_Cons)
  have ne: "node_stack st' \<noteq> node_stack ?st1" using branched by simp
  from process_node_branch [OF pn ne]
  have bv: "bv \<noteq> - 1" and st': "node_stack st' = down # up # rest"
    by (simp_all add: bv_def lp_def p_def x_def down_def up_def)
  from findBranchingVariable_spec [of "solution lp" p] bv
  have sel: "0 \<le> bv" "nat bv < getNumVariables p" "is_candidate (solution lp) p (nat bv)"
    "\<forall>j < getNumVariables p. is_integer_var (variables p ! j) \<longrightarrow> \<not> dgt (fp j) (fp (nat bv))"
    "\<forall>j < nat bv. is_integer_var (variables p ! j) \<longrightarrow> \<not> dge (fp j) (fp (nat bv))"
    by (simp_all add: bv_def fp_def)
  from sel(3) have cand: "is_integer_var (variables p ! nat bv)" "dgt (fp (nat bv)) (Fin (1 / 10 ^ 6))"
    by (simp_all add: is_candidate_def fp_def)
  have fin: "\<exists>r. x = Fin r"
    using cand(2) by (cases x) (simp_all add: fp_def x_def fractional_part_def dsub_def dgt_def)
  then have fl: "\<exists>r. x = Fin r \<and> dfloor x = Fin (of_int \<lfloor>r\<rfloor>) \<and> dceil x = Fin (of_int \<lceil>r\<rceil>)"
    by auto
  have rng: "in_range bv (variables (problem cur))"
    using sel(1,2) same_model_length [OF same] by (simp add: in_range_def getNumVariables_def)
  have bounds:
    "upper_bound (variables (problem down) ! nat bv)
         = dmin (upper_bound (variables (problem cur) ! nat bv)) (dfloor x)"
    "lower_bound (variables (problem down) ! nat bv)
         = lower_bound (variables (problem cur) ! nat bv)"
    "lower_bound (variables (problem up) ! nat bv)
         = dmax (lower_bound (variables (problem cur) ! nat bv)) (dceil x)"
    "upper_bound (variables (problem up) ! nat bv)
         = upper_bound (variables (problem cur) ! nat bv)"
    using rng by (simp_all add: down_def up_def left_child_def right_child_def addBound_nth setBounds_def)
  have others: "\<forall>j. j \<noteq> nat bv \<longrightarrow> variables (problem down) ! j = variables (problem cur) ! j
                          \<and> variables (problem up) ! j = variables (problem cur) ! j"
    by (simp add: down_def up_def left_child_def right_child_def addBound_other)
  have nxt: "bb_step st'
         = process_node (st'\<lparr>node_stack := up # rest, nodes_processed := nodes_processed st' + 1\<rparr>)
             down"
    using st' by (simp add: bb_step_Cons)
  from sel(1,2,4,5) cand fl bounds others st' nxt show ?thesis by blast
qed

theorem branching_rule_witness:
  "\<exists>st' down up. bb_step (initial_state split_repair_problem) = Continue st'
      \<and> node_stack st' = [down, up]
      \<and> upper_bound (variables (problem down) ! 0) = Fin 0
      \<and> lower_bound (variables (problem up) ! 0) = Fin 1"
proof -
  obtain st' where step: "bb_step (initial_state split_repair_problem) = Continue st'"
    using bb_step_Continue by blast
  with split_repair_branched have br: "node_stack st' \<noteq> []" by simp
  have reach: "search_state split_repair_problem (initial_state split_repair_problem)"
    by (rule search_state.init)
  have fl: "\<lfloor>5 / 6 :: real\<rfloor> = 0" "\<lceil>5 / 6 :: real\<rceil> = 1" by simp_all
  from branching_rule [OF step split_repair_stack br reach]
  have "node_stack st'
      = [left_child \<lparr>problem = split_repair_problem, bound = PInf, depth = 0\<rparr> 0 (Fin (5 / 6)) (Fin (25 / 2)),
         right_child \<lparr>problem = split_repair_problem, bound = PInf, depth = 0\<rparr> 0 (Fin (5 / 6)) (Fin (25 / 2))]
    \<and> upper_bound (variables (problem (left_child \<lparr>problem = split_repair_problem, bound = PInf, depth = 0\<rparr> 0 (Fin (5 / 6)) (Fin (25 / 2)))) ! 0) = Fin 0
    \<and> lower_bound (variables (problem (right_child \<lparr>problem = split_repair_problem, bound = PInf, depth = 0\<rparr> 0 (Fin (5 / 6)) (Fin (25 / 2)))) ! 0) = Fin 1"
    by (simp add: split_repair_caller split_repair_lp split_repair_branch_var split_repair_var0
          example_var_def dmin_def dmax_def fl)
  with step show ?thesis by blast
qed

section \<open>Values within finite bounds\<close>




























section \<open>The solution returned as Optimal\<close>












section \<open>Acceptance after the repair loop\<close>

lemma satisfy_loop_continue:
  assumes "iter < 20" and "\<not> pass_exits p iter s"
  shows "satisfy_loop p iter s = satisfy_loop p (iter + 1) (pass_solution p s)"
proof -
  obtain a mv s1 where rp: "repair_pass p s = (a, mv, s1)" by (cases "repair_pass p s")
  with assms show ?thesis
    by (subst satisfy_loop.simps) (auto simp: pass_exits_def pass_solution_def)
qed

lemma satisfy_loop_exit:
  assumes "iter < 20" and "pass_exits p iter s"
  shows "satisfy_loop p iter s = (fst (repair_pass p s), pass_solution p s)"
proof -
  obtain a mv s1 where rp: "repair_pass p s = (a, mv, s1)" by (cases "repair_pass p s")
  with assms show ?thesis
    by (subst satisfy_loop.simps) (auto simp: pass_exits_def pass_solution_def)
qed

lemma satisfy_loop_run:
  "iter + k = 20 \<Longrightarrow> \<forall>j<k. \<not> pass_exits p (iter + j) ((pass_solution p ^^ j) s) \<Longrightarrow>
   satisfy_loop p iter s
     = (dlt (total_violation p ((pass_solution p ^^ k) s)) (Fin (1 / 10)), (pass_solution p ^^ k) s)"
proof (induction k arbitrary: iter s)
  case 0
  then show ?case by (subst satisfy_loop.simps) simp
next
  case (Suc k)
  from Suc.prems have lt: "iter < 20" by simp
  from Suc.prems(2) have ne: "\<not> pass_exits p iter s" by force
  have nxt: "\<forall>j<k. \<not> pass_exits p (iter + 1 + j) ((pass_solution p ^^ j) (pass_solution p s))"
  proof (intro allI impI)
    fix j assume "j < k"
    then have "\<not> pass_exits p (iter + Suc j) ((pass_solution p ^^ Suc j) s)"
      using Suc.prems(2) by (metis Suc_less_eq)
    then show "\<not> pass_exits p (iter + 1 + j) ((pass_solution p ^^ j) (pass_solution p s))"
      by (simp add: funpow_swap1)
  qed
  from Suc.prems(1) have "iter + 1 + k = 20" by simp
  from Suc.IH [OF this nxt] satisfy_loop_continue [OF lt ne] show ?case
    by (simp add: funpow_swap1)
qed

lemma satisfy_loop_early:
  "iter + k < 20 \<Longrightarrow> \<forall>j<k. \<not> pass_exits p (iter + j) ((pass_solution p ^^ j) s) \<Longrightarrow>
   pass_exits p (iter + k) ((pass_solution p ^^ k) s) \<Longrightarrow>
   satisfy_loop p iter s
     = (fst (repair_pass p ((pass_solution p ^^ k) s)), (pass_solution p ^^ Suc k) s)"
proof (induction k arbitrary: iter s)
  case 0
  then show ?case using satisfy_loop_exit [of iter p s] by simp
next
  case (Suc k)
  from Suc.prems have lt: "iter < 20" by simp
  from Suc.prems(2) have ne: "\<not> pass_exits p iter s" by force
  have nxt: "\<forall>j<k. \<not> pass_exits p (iter + 1 + j) ((pass_solution p ^^ j) (pass_solution p s))"
  proof (intro allI impI)
    fix j assume "j < k"
    then have "\<not> pass_exits p (iter + Suc j) ((pass_solution p ^^ Suc j) s)"
      using Suc.prems(2) by (metis Suc_less_eq)
    then show "\<not> pass_exits p (iter + 1 + j) ((pass_solution p ^^ j) (pass_solution p s))"
      by (simp add: funpow_swap1)
  qed
  from Suc.prems(1) have b: "iter + 1 + k < 20" by simp
  from Suc.prems(3) have ex: "pass_exits p (iter + 1 + k) ((pass_solution p ^^ k) (pass_solution p s))"
    by (simp add: funpow_swap1)
  from Suc.IH [OF b nxt ex] satisfy_loop_continue [OF lt ne] show ?case
    by (simp add: funpow_swap1)
qed

lemma repair_fold_within:
  "list_all (\<lambda>c. within_tolerance c sol) cs \<Longrightarrow>
   foldl (repair_constraint p) (a, mv, sol) cs = (a, mv, sol)"
  by (induction cs) (simp_all add: repair_constraint_def within_tolerance_def Let_def)

lemma repair_pass_all_satisfied:
  "fst (repair_pass p sol) = all_within_tolerance p sol"
proof (cases "all_within_tolerance p sol")
  case True
  then show ?thesis
    by (simp add: repair_pass_def all_within_tolerance_def repair_fold_within)
next
  case False
  obtain a mv s1 where rp: "repair_pass p sol = (a, mv, s1)" by (cases "repair_pass p sol")
  with False repair_pass_satisfied [of p sol mv s1] show ?thesis by (cases a) auto
qed

text \<open>
  C5, as the code has it. If none of the 20 passes of the repair loop ends it (no pass
  finds every constraint within \<^verbatim>\<open>1e-6\<close>, and no pass after the sixth sees a largest
  violation above 1), the solver recomputes the total violation of the assignment the
  passes leave and accepts if and only if it is strictly below \<^verbatim>\<open>0.1\<close>. If pass \<open>k\<close> is
  the first to end the loop, the assignment is accepted if and only if that pass found
  every constraint within \<^verbatim>\<open>1e-6\<close>, whatever the total violation. The LP result is
  infeasible exactly when a bound pair is infeasible or the assignment is not accepted.
\<close>

theorem acceptance_after_repair:
  "((\<forall>k<20. \<not> pass_exits p k (after_passes p k sol)) \<longrightarrow>
      satisfyConstraints p sol
        = (dlt (total_violation p (after_passes p 20 sol)) (Fin (1 / 10)), after_passes p 20 sol))
   \<and> (k < 20 \<and> (\<forall>j<k. \<not> pass_exits p j (after_passes p j sol))
        \<and> pass_exits p k (after_passes p k sol) \<longrightarrow>
      satisfyConstraints p sol
        = (all_within_tolerance p (after_passes p k sol), after_passes p (Suc k) sol))
   \<and> is_infeasible (solveLPWithBounds p)
       = (has_infeasible_bounds p \<or> \<not> fst (satisfyConstraints p (initial_solution p)))"
proof -
  have a: "satisfyConstraints p sol
        = (dlt (total_violation p (after_passes p 20 sol)) (Fin (1 / 10)), after_passes p 20 sol)"
    if "\<forall>k<20. \<not> pass_exits p k (after_passes p k sol)"
    using satisfy_loop_run [of 0 20 p sol] that
    by (simp add: satisfyConstraints_def after_passes_def)
  have b: "satisfyConstraints p sol
        = (all_within_tolerance p (after_passes p k sol), after_passes p (Suc k) sol)"
    if "k < 20" "\<forall>j<k. \<not> pass_exits p j (after_passes p j sol)"
      "pass_exits p k (after_passes p k sol)"
    using satisfy_loop_early [of 0 k p sol] that
    by (simp add: satisfyConstraints_def after_passes_def repair_pass_all_satisfied)
  have c: "is_infeasible (solveLPWithBounds p)
       = (has_infeasible_bounds p \<or> \<not> fst (satisfyConstraints p (initial_solution p)))"
    by (simp add: solveLPWithBounds_def Let_def split: prod.splits)
  from a b c show ?thesis by blast
qed

lemma fixed_violation_pass:
  "repair_pass fixed_violation_problem [Fin 0] = (False, Fin (1 / 10), [Fin 0])"
  by code_simp

lemma fixed_violation_passes: "after_passes fixed_violation_problem k [Fin 0] = [Fin 0]"
  by (induction k) (simp_all add: after_passes_def pass_solution_def fixed_violation_pass)

theorem acceptance_after_repair_witness:
  "satisfyConstraints fixed_violation_problem [Fin 0] = (False, [Fin 0])
   \<and> total_violation fixed_violation_problem [Fin 0] = Fin (1 / 10)"
proof -
  have ne: "\<forall>k<20. \<not> pass_exits fixed_violation_problem k (after_passes fixed_violation_problem k [Fin 0])"
    by (simp add: fixed_violation_passes pass_exits_def fixed_violation_pass dgt_def)
  have tv: "total_violation fixed_violation_problem [Fin 0] = Fin (1 / 10)"
    by code_simp
  from acceptance_after_repair [of fixed_violation_problem "[Fin 0]" 0] ne tv show ?thesis
    by (simp add: fixed_violation_passes)
qed

text \<open>
  C5 as stated fails on the boundary: for the fixed \<open>x = 0\<close> and the constraint
  \<open>x = 1/10\<close> the total violation after the loop is exactly \<open>1/10\<close>, which is \<open>\<le> 0.1\<close>,
  and the solver rejects the assignment and reports the LP infeasible.
\<close>

theorem acceptance_boundary_counterexample:
  "total_violation fixed_violation_problem
       (snd (satisfyConstraints fixed_violation_problem (initial_solution fixed_violation_problem)))
     = Fin (1 / 10)
   \<and> dle (Fin (1 / 10)) (Fin (1 / 10))
   \<and> \<not> fst (satisfyConstraints fixed_violation_problem (initial_solution fixed_violation_problem))
   \<and> is_infeasible (solveLPRelaxation fixed_violation_problem)"
  by code_simp

section \<open>Pruning by the bound\<close>

text \<open>
  C2 fails on the code. On \<open>split_repair_problem\<close> the search takes three steps: the root
  is branched on \<open>x\<close>; the down child gives the incumbent \<open>(0, 1, 1)\<close> with objective 12;
  the up child, whose LP relaxation the repair loop solves to the objective 12, is pruned
  by \<^verbatim>\<open>shouldPrune\<close>. The point \<open>(1, 1, 1/2)\<close> lies within the bounds of the up child,
  satisfies the constraint, is integer feasible, and has objective 13, better than the
  incumbent beyond the tolerance. \<^verbatim>\<open>solve\<close> returns Optimal with objective 12.
\<close>

theorem pruned_node_has_better_point:
  "(case bb_step (initial_state split_repair_problem) of
      ReturnUnbounded s \<Rightarrow> False
    | Continue s1 \<Rightarrow>
        (case bb_step s1 of
           ReturnUnbounded s \<Rightarrow> False
         | Continue s2 \<Rightarrow>
             node_stack s2 = [split_repair_up_node]
             \<and> best_objective s2 = Fin 12
             \<and> best_solution s2 = [Fin 0, Fin 1, Fin 1]
             \<and> bb_step s2 = Continue (s2\<lparr>node_stack := [], nodes_processed := 3,
                                          nodes_pruned := nodes_pruned s2 + 1\<rparr>)))
   \<and> \<not> is_infeasible (solveLPRelaxation (problem split_repair_up_node))
   \<and> objective_value (solveLPRelaxation (problem split_repair_up_node)) = Fin 12
   \<and> shouldPrune (Fin 12) (Fin 12) MAXIMIZE
   \<and> isValidSolution (problem split_repair_up_node) [Fin 1, Fin 1, Fin (1 / 2)]
   \<and> isValidSolution split_repair_problem [Fin 1, Fin 1, Fin (1 / 2)]
   \<and> isIntegerFeasible [Fin 1, Fin 1, Fin (1 / 2)] split_repair_problem
   \<and> calculateObjectiveValue split_repair_problem [Fin 1, Fin 1, Fin (1 / 2)] = Fin 13
   \<and> isBetterSolution (Fin 13) (Fin 12) MAXIMIZE
   \<and> solve 1000 split_repair_problem
       = \<lparr>status = OPTIMAL, sol_values = [Fin 0, Fin 1, Fin 1], sol_objective_value = Fin 12,
          sol_iterations = 3\<rparr>"
  by code_simp

end
